theory Spec2Isabelle
  imports Main "HOL-Library.AList" "HOL-Library.Sublist"
begin

section \<open>The TikTok video collector (src/video_collection/collector.py)\<close>

text \<open>
  The module wraps two external libraries. Everything the collector does itself is
  embedded here: the regular-expression extraction of a video ID, the trimming of
  URLs, the insertion-ordered dictionary from URL to ID, the mapping of the nested
  response into \<open>VideoMetadata\<close>, the download boundary, and the
  try / except / finally structure of \<open>download_videos\<close>, \<open>_initialize_api\<close> and
  \<open>cleanup\<close>.

  Conventions of the embedding:
  \<^item> a Python \<open>str\<close> is a \<open>string\<close>; each \<open>char\<close> stands for one code point in
    the range 0..255, and the character classes of \<open>re\<close> and \<open>str.strip\<close> are
    Python's classes on that range;
  \<^item> an exception is a value of type \<open>exn\<close>, a call that may raise returns
    \<open>exn + 'a\<close> with \<open>Inl\<close> for the raise; only exceptions derived from
    \<open>Exception\<close> are modelled (these are the ones the handlers of the module name);
  \<^item> the external collaborators (scraping client, download tool, file system, file
    manager) are the fields of an environment record; each call takes the state of
    the outside world and returns its outcome with the new state of the world;
  \<^item> a leading underscore of a method name is dropped; the field \<open>id\<close> of
    \<open>VideoMetadata\<close> is called \<open>video_id\<close>; logging is left out.
\<close>

subsection \<open>Regular expressions as \<open>re.search\<close> runs them\<close>

text \<open>
  The fragment of the pattern language that \<open>video_id_patterns\<close> uses: literals,
  character classes, sequence, alternation, greedy \<open>?\<close> and \<open>+\<close>, and the capturing
  group (there is one group per pattern, group 1).
\<close>

datatype regex =
    Eps
  | Lit char
  | Cls "char \<Rightarrow> bool"
  | Seq regex regex
  | Alt regex regex
  | Opt regex
  | Plus regex
  | Group regex

text \<open>
  A backtracking matcher in continuation-passing style: \<open>rmatch r s g k\<close> matches
  \<open>r\<close> at the start of \<open>s\<close>, with \<open>g\<close> the text captured so far by group 1, and
  hands the rest of the input to \<open>k\<close>. Alternatives are tried in the order of the
  \<open>re\<close> module: the left branch of \<open>|\<close> first, the longer repetition first. A
  repetition stops when an iteration consumes nothing.
\<close>

function rmatch ::
  "regex \<Rightarrow> string \<Rightarrow> string option \<Rightarrow> (string \<Rightarrow> string option \<Rightarrow> 'r option) \<Rightarrow> 'r option"
where
  "rmatch Eps s g k = k s g"
| "rmatch (Lit c) s g k =
     (case s of [] \<Rightarrow> None | x # xs \<Rightarrow> if x = c then k xs g else None)"
| "rmatch (Cls P) s g k =
     (case s of [] \<Rightarrow> None | x # xs \<Rightarrow> if P x then k xs g else None)"
| "rmatch (Seq a b) s g k = rmatch a s g (\<lambda>s' g'. rmatch b s' g' k)"
| "rmatch (Alt a b) s g k =
     (case rmatch a s g k of Some r \<Rightarrow> Some r | None \<Rightarrow> rmatch b s g k)"
| "rmatch (Opt a) s g k =
     (case rmatch a s g k of Some r \<Rightarrow> Some r | None \<Rightarrow> k s g)"
| "rmatch (Plus a) s g k =
     rmatch a s g (\<lambda>s' g'.
       if length s' < length s
       then (case rmatch (Plus a) s' g' k of Some r \<Rightarrow> Some r | None \<Rightarrow> k s' g')
       else k s' g')"
| "rmatch (Group a) s g k =
     rmatch a s g (\<lambda>s' g'. k s' (Some (take (length s - length s') s)))"
  by pat_completeness auto
termination
  by (relation "inv_image (measure size <*lex*> measure length) (\<lambda>(r, s, g, k). (r, s))") auto

text \<open>
  \<open>re.search(pattern, s)\<close>: the leftmost start position at which the pattern
  matches. The result is the match object, represented by its \<open>group(1)\<close>
  (\<open>None\<close> inside \<open>Some\<close> when the group took no part in the match).
\<close>

fun re_search :: "regex \<Rightarrow> string \<Rightarrow> string option option" where
  "re_search r [] = rmatch r [] None (\<lambda>s' g. Some g)"
| "re_search r (c # cs) =
     (case rmatch r (c # cs) None (\<lambda>s' g. Some g) of
        Some g \<Rightarrow> Some g
      | None \<Rightarrow> re_search r cs)"

definition lits :: "string \<Rightarrow> regex" where
  "lits s = foldr (\<lambda>c r. Seq (Lit c) r) s Eps"

definition seqs :: "regex list \<Rightarrow> regex" where
  "seqs rs = foldr Seq rs Eps"

text \<open>\<open>\d\<close>, \<open>\w\<close> and white space of a Python 3 \<open>str\<close>, on the code points 0..255.\<close>

definition is_digit :: "char \<Rightarrow> bool" where
  "is_digit c = (let n = (of_char c :: nat) in 48 \<le> n \<and> n \<le> 57)"

definition is_word :: "char \<Rightarrow> bool" where
  "is_word c = (let n = (of_char c :: nat) in
      (48 \<le> n \<and> n \<le> 57) \<or> (65 \<le> n \<and> n \<le> 90) \<or> n = 95 \<or> (97 \<le> n \<and> n \<le> 122)
      \<or> n \<in> {170, 178, 179, 181, 185, 186, 188, 189, 190}
      \<or> (192 \<le> n \<and> n \<le> 214) \<or> (216 \<le> n \<and> n \<le> 246) \<or> 248 \<le> n)"

definition is_space :: "char \<Rightarrow> bool" where
  "is_space c = (let n = (of_char c :: nat) in
      (9 \<le> n \<and> n \<le> 13) \<or> (28 \<le> n \<and> n \<le> 32) \<or> n = 133 \<or> n = 160)"

definition strip :: "string \<Rightarrow> string" where
  "strip s = rev (dropWhile is_space (rev (dropWhile is_space s)))"

subsection \<open>Video ID extractor\<close>

text \<open>
  \<^verbatim>\<open>r'https?://(?:www\.)?tiktok\.com/@[\w.-]+/video/(\d+)'\<close>
\<close>

definition pattern1 :: regex where
  "pattern1 = seqs [lits ''http'', Opt (Lit CHR ''s''), lits ''://'', Opt (lits ''www.''),
     lits ''tiktok.com/@'', Plus (Cls (\<lambda>c. is_word c \<or> c = CHR ''.'' \<or> c = CHR ''-'')),
     lits ''/video/'', Group (Plus (Cls is_digit))]"

text \<open>
  \<^verbatim>\<open>r'https?://(?:m\.)?tiktok\.com/v/(\d+)'\<close>
\<close>

definition pattern2 :: regex where
  "pattern2 = seqs [lits ''http'', Opt (Lit CHR ''s''), lits ''://'', Opt (lits ''m.''),
     lits ''tiktok.com/v/'', Group (Plus (Cls is_digit))]"

text \<open>
  \<^verbatim>\<open>r'https?://(?:vm|vt)\.tiktok\.com/(\w+)'\<close>
\<close>

definition pattern3 :: regex where
  "pattern3 = seqs [lits ''http'', Opt (Lit CHR ''s''), lits ''://'',
     Alt (lits ''vm'') (lits ''vt''), lits ''.tiktok.com/'', Group (Plus (Cls is_word))]"

definition video_id_patterns :: "regex list" where
  "video_id_patterns = [pattern1, pattern2, pattern3]"

text \<open>
  The loop of \<open>_extract_video_id\<close>: the first pattern with a match returns its
  \<open>group(1)\<close>; after the loop the result is \<open>None\<close>.
\<close>

fun first_match :: "regex list \<Rightarrow> string \<Rightarrow> string option" where
  "first_match [] u = None"
| "first_match (p # ps) u =
     (case re_search p u of
        Some g \<Rightarrow> g
      | None \<Rightarrow> first_match ps u)"

definition extract_video_id :: "string \<Rightarrow> string option" where
  "extract_video_id u = first_match video_id_patterns u"

definition construct_video_url :: "string \<Rightarrow> string" where
  "construct_video_url vid = ''https://www.tiktok.com/@placeholder/video/'' @ vid"

subsection \<open>Values of the response, exceptions, records\<close>

datatype exn = Exception string | AttributeError string

text \<open>
  The response of the scraping client is duck-typed; numbers are integers here (the
  collector passes them on untouched).
\<close>

datatype pyval =
    PNone
  | PBool bool
  | PInt int
  | PStr string
  | PList "pyval list"
  | PDict "(string \<times> pyval) list"

fun truthy :: "pyval \<Rightarrow> bool" where
  "truthy PNone = False"
| "truthy (PBool b) = b"
| "truthy (PInt n) = (n \<noteq> 0)"
| "truthy (PStr s) = (s \<noteq> [])"
| "truthy (PList xs) = (xs \<noteq> [])"
| "truthy (PDict kvs) = (kvs \<noteq> [])"

text \<open>\<open>d.get(k, dflt)\<close>: only a dictionary has the method.\<close>

fun py_get :: "pyval \<Rightarrow> string \<Rightarrow> pyval \<Rightarrow> exn + pyval" where
  "py_get (PDict kvs) k dflt = Inr (case map_of kvs k of None \<Rightarrow> dflt | Some v \<Rightarrow> v)"
| "py_get v k dflt = Inl (AttributeError ''get'')"

definition bind_exn :: "exn + 'a \<Rightarrow> ('a \<Rightarrow> exn + 'b) \<Rightarrow> exn + 'b" where
  "bind_exn m f = (case m of Inl e \<Rightarrow> Inl e | Inr a \<Rightarrow> f a)"

text \<open>\<open>d.get(k1, {}).get(k2, dflt)\<close>\<close>

definition py_get2 :: "pyval \<Rightarrow> string \<Rightarrow> string \<Rightarrow> pyval \<Rightarrow> exn + pyval" where
  "py_get2 d k1 k2 dflt = bind_exn (py_get d k1 (PDict [])) (\<lambda>sub. py_get sub k2 dflt)"

record VideoMetadata =
  video_id :: string
  author :: pyval
  desc :: pyval
  create_time :: pyval
  duration :: pyval
  height :: pyval
  width :: pyval
  cover :: pyval
  download_url :: pyval
  play_url :: pyval
  music_author :: pyval
  music_title :: pyval
  likes :: pyval
  shares :: pyval
  comments :: pyval
  views :: pyval
  local_path :: "string option"
  url :: "string option"

type_synonym client = nat

text \<open>The collector object: \<open>self.api\<close>, \<open>self.initialized\<close>, and the outside world.\<close>

record 'w collector =
  api :: "client option"
  initialized :: bool
  world :: 'w

text \<open>
  The external collaborators. \<open>new_api\<close> is the constructor \<open>TikTokApi()\<close>,
  \<open>video_info a u\<close> is \<open>a.video(url=u).info()\<close>, \<open>ydl_download u out\<close> is the
  \<open>YoutubeDL\<close> block with \<open>outtmpl = out\<close>, \<open>get_download_path\<close> belongs to the
  file manager (src/utils/file_manager.py, a parameter here).
\<close>

record 'w env =
  mkdir :: "'w \<Rightarrow> (exn + unit) \<times> 'w"
  new_api :: "'w \<Rightarrow> (exn + client) \<times> 'w"
  create_sessions :: "client \<Rightarrow> 'w \<Rightarrow> (exn + unit) \<times> 'w"
  close_sessions :: "client \<Rightarrow> 'w \<Rightarrow> (exn + unit) \<times> 'w"
  video_info :: "client \<Rightarrow> string \<Rightarrow> 'w \<Rightarrow> (exn + pyval) \<times> 'w"
  get_download_path :: "string \<Rightarrow> 'w \<Rightarrow> (exn + string) \<times> 'w"
  mkdtemp :: "'w \<Rightarrow> (exn + string) \<times> 'w"
  ydl_download :: "string option \<Rightarrow> string \<Rightarrow> 'w \<Rightarrow> (exn + unit) \<times> 'w"
  path_exists :: "string \<Rightarrow> 'w \<Rightarrow> bool"
  copy2 :: "string \<Rightarrow> string \<Rightarrow> 'w \<Rightarrow> (exn + unit) \<times> 'w"
  rmtree :: "string \<Rightarrow> 'w \<Rightarrow> (exn + unit) \<times> 'w"

subsection \<open>Session life cycle\<close>

text \<open>
  \<open>cleanup\<close>: the body of the \<open>try\<close> resets the two fields after
  \<open>close_sessions\<close> has returned; the handler only logs, so an exception of
  \<open>close_sessions\<close> leaves the fields as they were.
\<close>

definition cleanup_try :: "'w env \<Rightarrow> 'w collector \<Rightarrow> (exn + unit) \<times> 'w collector" where
  "cleanup_try E s =
     (case api s of
        None \<Rightarrow> (Inr (), s)
      | Some a \<Rightarrow>
          (case close_sessions E a (world s) of
             (Inl e, w) \<Rightarrow> (Inl e, s\<lparr>world := w\<rparr>)
           | (Inr u, w) \<Rightarrow> (Inr (), s\<lparr>api := None, initialized := False, world := w\<rparr>)))"

definition cleanup :: "'w env \<Rightarrow> 'w collector \<Rightarrow> (exn + unit) \<times> 'w collector" where
  "cleanup E s =
     (case cleanup_try E s of
        (Inl e, s') \<Rightarrow> (Inr (), s')
      | (Inr u, s') \<Rightarrow> (Inr (), s'))"

definition initialize_api_try :: "'w env \<Rightarrow> 'w collector \<Rightarrow> (exn + unit) \<times> 'w collector" where
  "initialize_api_try E s =
     (if \<not> initialized s then
        (case mkdir E (world s) of
           (Inl e, w1) \<Rightarrow> (Inl e, s\<lparr>world := w1\<rparr>)
         | (Inr u1, w1) \<Rightarrow>
             (case new_api E w1 of
                (Inl e, w2) \<Rightarrow> (Inl e, s\<lparr>world := w2\<rparr>)
              | (Inr a, w2) \<Rightarrow>
                  (case create_sessions E a w2 of
                     (Inl e, w3) \<Rightarrow> (Inl e, s\<lparr>api := Some a, world := w3\<rparr>)
                   | (Inr u2, w3) \<Rightarrow>
                       (Inr (), s\<lparr>api := Some a, initialized := True, world := w3\<rparr>))))
      else (Inr (), s))"

text \<open>
  The handler of \<open>_initialize_api\<close>: \<open>if self.api: await self.cleanup()\<close>, then
  \<open>raise\<close>.
\<close>

definition initialize_api :: "'w env \<Rightarrow> 'w collector \<Rightarrow> (exn + unit) \<times> 'w collector" where
  "initialize_api E s =
     (case initialize_api_try E s of
        (Inr u, s1) \<Rightarrow> (Inr u, s1)
      | (Inl e, s1) \<Rightarrow>
          (if api s1 \<noteq> None
           then (case cleanup E s1 of
                   (Inl e', s2) \<Rightarrow> (Inl e', s2)
                 | (Inr u, s2) \<Rightarrow> (Inl e, s2))
           else (Inl e, s1)))"

definition new_collector :: "'w \<Rightarrow> 'w collector" where
  "new_collector w = \<lparr>api = None, initialized = False, world = w\<rparr>"

subsection \<open>Metadata fetcher\<close>

text \<open>The field mapping of \<open>_get_video_info\<close>, in the order of the source.\<close>

definition map_response :: "pyval \<Rightarrow> string \<Rightarrow> string \<Rightarrow> exn + VideoMetadata" where
  "map_response video_data vid original_url =
     bind_exn (py_get2 video_data ''author'' ''uniqueId'' (PStr '''')) (\<lambda>v_author.
     bind_exn (py_get video_data ''desc'' (PStr '''')) (\<lambda>v_desc.
     bind_exn (py_get video_data ''createTime'' (PInt 0)) (\<lambda>v_create_time.
     bind_exn (py_get2 video_data ''video'' ''duration'' (PInt 0)) (\<lambda>v_duration.
     bind_exn (py_get2 video_data ''video'' ''height'' (PInt 0)) (\<lambda>v_height.
     bind_exn (py_get2 video_data ''video'' ''width'' (PInt 0)) (\<lambda>v_width.
     bind_exn (py_get2 video_data ''video'' ''cover'' (PStr '''')) (\<lambda>v_cover.
     bind_exn (py_get2 video_data ''video'' ''downloadAddr'' (PStr '''')) (\<lambda>v_download_url.
     bind_exn (py_get2 video_data ''video'' ''playAddr'' (PStr '''')) (\<lambda>v_play_url.
     bind_exn (py_get2 video_data ''music'' ''authorName'' (PStr '''')) (\<lambda>v_music_author.
     bind_exn (py_get2 video_data ''music'' ''title'' (PStr '''')) (\<lambda>v_music_title.
     bind_exn (py_get video_data ''stats'' (PDict [])) (\<lambda>stats.
     bind_exn (py_get stats ''diggCount'' (PInt 0)) (\<lambda>v_likes.
     bind_exn (py_get stats ''shareCount'' (PInt 0)) (\<lambda>v_shares.
     bind_exn (py_get stats ''commentCount'' (PInt 0)) (\<lambda>v_comments.
     bind_exn (py_get stats ''playCount'' (PInt 0)) (\<lambda>v_views.
       Inr \<lparr>video_id = vid, author = v_author, desc = v_desc,
            create_time = v_create_time, duration = v_duration, height = v_height,
            width = v_width, cover = v_cover, download_url = v_download_url,
            play_url = v_play_url, music_author = v_music_author,
            music_title = v_music_title, likes = v_likes, shares = v_shares,
            comments = v_comments, views = v_views, local_path = None,
            url = Some original_url\<rparr>))))))))))))))))"

text \<open>
  The URL handed to the client: \<open>if not original_url\<close> holds of \<open>None\<close> and of
  the empty string, and then a URL is made up from the ID.
\<close>

definition request_url :: "string \<Rightarrow> string option \<Rightarrow> string" where
  "request_url vid original_url =
     (case original_url of
        None \<Rightarrow> ''https://www.tiktok.com/video/'' @ vid
      | Some u0 \<Rightarrow> if u0 = [] then ''https://www.tiktok.com/video/'' @ vid else u0)"

text \<open>
  \<open>_get_video_info\<close>. The handler logs and re-raises, so the outcome of the
  \<open>try\<close> block is the outcome of the method.
\<close>

definition get_video_info ::
  "'w env \<Rightarrow> string \<Rightarrow> string option \<Rightarrow> 'w collector \<Rightarrow> (exn + VideoMetadata) \<times> 'w collector"
where
  "get_video_info E vid original_url s =
     (case api s of
        None \<Rightarrow> (Inl (Exception ''TikTok API not initialized''), s)
      | Some a \<Rightarrow>
          (let u = request_url vid original_url
           in case video_info E a u (world s) of
                (Inl e, w) \<Rightarrow> (Inl e, s\<lparr>world := w\<rparr>)
              | (Inr video_data, w) \<Rightarrow>
                  if \<not> truthy video_data
                  then (Inl (Exception (''Failed to get video data for ID: '' @ vid)),
                        s\<lparr>world := w\<rparr>)
                  else (map_response video_data vid u, s\<lparr>world := w\<rparr>)))"

subsection \<open>Downloader\<close>

text \<open>\<open>os.path.join\<close> of two components (POSIX).\<close>

definition path_join :: "string \<Rightarrow> string \<Rightarrow> string" where
  "path_join a b =
     (if b \<noteq> [] \<and> hd b = CHR ''/'' then b
      else if a = [] \<or> last a = CHR ''/'' then a @ b
      else a @ ''/'' @ b)"

text \<open>
  \<open>_download_with_ytdlp\<close>: \<open>mkdtemp\<close> is called before the \<open>try\<close>; the handler
  turns every exception of the block into \<open>False\<close>; the \<open>finally\<close> clause removes
  the temporary directory and swallows an exception of \<open>rmtree\<close>. The value that
  \<open>ydl.download\<close> returns is discarded: with \<open>ignoreerrors\<close> off, the tool reports
  a failure by raising.
\<close>

definition download_with_ytdlp ::
  "'w env \<Rightarrow> string option \<Rightarrow> string \<Rightarrow> 'w \<Rightarrow> (exn + bool) \<times> 'w"
where
  "download_with_ytdlp E u output_path w =
     (case mkdtemp E w of
        (Inl e, w1) \<Rightarrow> (Inl e, w1)
      | (Inr temp_dir, w1) \<Rightarrow>
          (let temp_output = path_join temp_dir ''video.mp4'';
               (ok, w2) =
                 (case ydl_download E u temp_output w1 of
                    (Inl e, w') \<Rightarrow> (False, w')
                  | (Inr u1, w') \<Rightarrow>
                      if path_exists E temp_output w'
                      then (case copy2 E temp_output output_path w' of
                              (Inl e, w'') \<Rightarrow> (False, w'')
                            | (Inr u2, w'') \<Rightarrow> (True, w''))
                      else (False, w'));
               w3 = snd (rmtree E temp_dir w2)
           in (Inr ok, w3)))"

text \<open>
  \<open>_download_video\<close>: the \<open>try\<close> block, then the handler that turns an exception
  into \<open>None\<close>. The metadata object is mutated in place; the model returns it.
\<close>

definition download_video_try ::
  "'w env \<Rightarrow> VideoMetadata \<Rightarrow> 'w \<Rightarrow> (exn + string option) \<times> VideoMetadata \<times> 'w"
where
  "download_video_try E md w =
     (case get_download_path E (video_id md) w of
        (Inl e, w1) \<Rightarrow> (Inl e, md, w1)
      | (Inr output_path, w1) \<Rightarrow>
          (case download_with_ytdlp E (url md) output_path w1 of
             (Inl e, w2) \<Rightarrow> (Inl e, md, w2)
           | (Inr success, w2) \<Rightarrow>
               if \<not> success then (Inr None, md, w2)
               else (Inr (Some output_path), md\<lparr>local_path := Some output_path\<rparr>, w2)))"

definition download_video ::
  "'w env \<Rightarrow> VideoMetadata \<Rightarrow> 'w \<Rightarrow> (exn + string option) \<times> VideoMetadata \<times> 'w"
where
  "download_video E md w =
     (case download_video_try E md w of
        (Inl e, md', w') \<Rightarrow> (Inr None, md', w')
      | (Inr p, md', w') \<Rightarrow> (Inr p, md', w'))"

subsection \<open>Collector\<close>

text \<open>
  The first loop of \<open>download_videos\<close>. \<open>url_to_id\<close> is a \<open>dict\<close>: assigning to a
  new key appends it, assigning to a key that is present overwrites the value in
  place, and iteration follows the order of insertion.
\<close>

definition resolve_step :: "(string \<times> string) list \<Rightarrow> string \<Rightarrow> (string \<times> string) list" where
  "resolve_step acc u0 =
     (let u = strip u0
      in case extract_video_id u of
           None \<Rightarrow> acc
         | Some vid \<Rightarrow> if vid \<noteq> [] then AList.update u vid acc else acc)"

definition url_to_id :: "string list \<Rightarrow> (string \<times> string) list" where
  "url_to_id urls = foldl resolve_step [] urls"

text \<open>
  The second loop. An exception of \<open>_get_video_info\<close> leaves the loop; the test
  \<open>if metadata\<close> is true of every \<open>VideoMetadata\<close> object; \<open>if download_path\<close>
  holds of a non-empty string.
\<close>

fun process ::
  "'w env \<Rightarrow> (string \<times> string) list \<Rightarrow> VideoMetadata list \<Rightarrow> 'w collector
     \<Rightarrow> (exn + VideoMetadata list) \<times> 'w collector"
where
  "process E [] results s = (Inr results, s)"
| "process E ((u, vid) # rest) results s =
     (case get_video_info E vid (Some u) s of
        (Inl e, s1) \<Rightarrow> (Inl e, s1)
      | (Inr metadata, s1) \<Rightarrow>
          (case download_video E metadata (world s1) of
             (Inl e, md', w2) \<Rightarrow> (Inl e, s1\<lparr>world := w2\<rparr>)
           | (Inr download_path, md', w2) \<Rightarrow>
               if download_path \<noteq> None \<and> download_path \<noteq> Some []
               then process E rest (results @ [md']) (s1\<lparr>world := w2\<rparr>)
               else process E rest results (s1\<lparr>world := w2\<rparr>)))"

definition download_videos_try ::
  "'w env \<Rightarrow> string list \<Rightarrow> 'w collector \<Rightarrow> (exn + VideoMetadata list) \<times> 'w collector"
where
  "download_videos_try E urls s =
     (case initialize_api E s of
        (Inl e, s1) \<Rightarrow> (Inl e, s1)
      | (Inr u, s1) \<Rightarrow>
          (let m = url_to_id urls
           in if m = [] then (Inr [], s1) else process E m [] s1))"

text \<open>
  \<open>download_videos\<close>: the handler \<open>except Exception\<close> returns the empty list, the
  \<open>finally\<close> clause runs \<open>cleanup\<close> on every path (an exception of the
  \<open>finally\<close> clause would replace the result).
\<close>

definition download_videos ::
  "'w env \<Rightarrow> string list \<Rightarrow> 'w collector \<Rightarrow> (exn + VideoMetadata list) \<times> 'w collector"
where
  "download_videos E urls s =
     (case download_videos_try E urls s of
        (r, s1) \<Rightarrow>
          (let r' = (case r of Inl e \<Rightarrow> Inr [] | Inr rs \<Rightarrow> Inr rs)
           in case cleanup E s1 of
                (Inl e, s2) \<Rightarrow> (Inl e, s2)
              | (Inr u, s2) \<Rightarrow> (r', s2)))"

subsection \<open>The field mapping as the specification words it\<close>

text \<open>
  The specification's reading of the mapping, to compare with \<open>map_response\<close>: a key
  that is missing, at the top level or in a nested object, gives the default of the
  field. \<open>sub_is_dict\<close> holds when a nested object is missing or is a dictionary.
\<close>

definition key_or_default :: "(string \<times> pyval) list \<Rightarrow> string \<Rightarrow> pyval \<Rightarrow> pyval" where
  "key_or_default kvs k dflt = (case map_of kvs k of None \<Rightarrow> dflt | Some v \<Rightarrow> v)"

definition nested_or_default ::
  "(string \<times> pyval) list \<Rightarrow> string \<Rightarrow> string \<Rightarrow> pyval \<Rightarrow> pyval" where
  "nested_or_default kvs k1 k2 dflt =
     (case map_of kvs k1 of
        None \<Rightarrow> dflt
      | Some sub \<Rightarrow> (case sub of PDict d \<Rightarrow> key_or_default d k2 dflt | _ \<Rightarrow> dflt))"

definition sub_is_dict :: "(string \<times> pyval) list \<Rightarrow> string \<Rightarrow> bool" where
  "sub_is_dict kvs k =
     (case map_of kvs k of
        None \<Rightarrow> True
      | Some sub \<Rightarrow> (case sub of PDict d \<Rightarrow> True | _ \<Rightarrow> False))"

text \<open>The record that the specification describes for a dictionary response.\<close>

definition mapped_record ::
  "(string \<times> pyval) list \<Rightarrow> string \<Rightarrow> string \<Rightarrow> VideoMetadata" where
  "mapped_record kvs vid u =
     \<lparr>video_id = vid,
      author = nested_or_default kvs ''author'' ''uniqueId'' (PStr ''''),
      desc = key_or_default kvs ''desc'' (PStr ''''),
      create_time = key_or_default kvs ''createTime'' (PInt 0),
      duration = nested_or_default kvs ''video'' ''duration'' (PInt 0),
      height = nested_or_default kvs ''video'' ''height'' (PInt 0),
      width = nested_or_default kvs ''video'' ''width'' (PInt 0),
      cover = nested_or_default kvs ''video'' ''cover'' (PStr ''''),
      download_url = nested_or_default kvs ''video'' ''downloadAddr'' (PStr ''''),
      play_url = nested_or_default kvs ''video'' ''playAddr'' (PStr ''''),
      music_author = nested_or_default kvs ''music'' ''authorName'' (PStr ''''),
      music_title = nested_or_default kvs ''music'' ''title'' (PStr ''''),
      likes = nested_or_default kvs ''stats'' ''diggCount'' (PInt 0),
      shares = nested_or_default kvs ''stats'' ''shareCount'' (PInt 0),
      comments = nested_or_default kvs ''stats'' ''commentCount'' (PInt 0),
      views = nested_or_default kvs ''stats'' ''playCount'' (PInt 0),
      local_path = None,
      url = Some u\<rparr>"

subsection \<open>Consistent states\<close>

text \<open>
  A state of the collector is consistent when \<open>initialized\<close> holds only together
  with a client. The constructor gives such a state and every method keeps it.
\<close>

definition consistent :: "'w collector \<Rightarrow> bool" where
  "consistent s = (if initialized s then api s \<noteq> None else True)"

subsection \<open>A sample environment\<close>

text \<open>
  An environment in which the world is a counter of external calls. The session can
  be made to fail at \<open>create_sessions\<close> or at \<open>close_sessions\<close>; the client
  answers with an empty response for the URLs in \<open>no_data\<close>; the download tool
  raises for the URLs in \<open>no_file\<close>.
\<close>

definition sample_env :: "bool \<Rightarrow> bool \<Rightarrow> string list \<Rightarrow> string list \<Rightarrow> nat env" where
  "sample_env sessions_ok close_ok no_data no_file =
     \<lparr>mkdir = (\<lambda>w. (Inr (), Suc w)),
      new_api = (\<lambda>w. (Inr 1, Suc w)),
      create_sessions =
        (\<lambda>a w. (if sessions_ok then Inr () else Inl (Exception ''no session''), Suc w)),
      close_sessions =
        (\<lambda>a w. (if close_ok then Inr () else Inl (Exception ''close failed''), Suc w)),
      video_info =
        (\<lambda>a u w. (Inr (if u \<in> set no_data then PDict []
                         else PDict [(''desc'', PStr ''clip'')]), Suc w)),
      get_download_path = (\<lambda>vid w. (Inr (''downloads/'' @ vid @ ''.mp4''), w)),
      mkdtemp = (\<lambda>w. (Inr ''/tmp/dl'', Suc w)),
      ydl_download =
        (\<lambda>u out w. (if u \<in> set (map Some no_file) then Inl (Exception ''download error'')
                      else Inr (), Suc w)),
      path_exists = (\<lambda>p w. True),
      copy2 = (\<lambda>src dst w. (Inr (), Suc w)),
      rmtree = (\<lambda>d w. (Inr (), Suc w))\<rparr>"

definition ok_env :: "nat env" where
  "ok_env = sample_env True True [] []"

text \<open>Two sample URLs, for the first and for the third pattern.\<close>

definition url_a :: string where
  "url_a = ''https://www.tiktok.com/@user/video/123''"

definition url_b :: string where
  "url_b = ''https://vm.tiktok.com/abcdefg/''"

text \<open>A collector that holds a client, and a record as \<open>_get_video_info\<close> returns it.\<close>

definition live_collector :: "nat collector" where
  "live_collector = \<lparr>api = Some 1, initialized = True, world = 0\<rparr>"

definition sample_record :: VideoMetadata where
  "sample_record = mapped_record [(''desc'', PStr ''clip'')] ''123'' url_a"

text \<open>
  The records that \<open>download_videos\<close> returns for the two sample URLs in the sample
  environment.
\<close>

definition record_a :: VideoMetadata where
  "record_a = (mapped_record [(''desc'', PStr ''clip'')] ''123'' url_a)
                \<lparr>local_path := Some ''downloads/123.mp4''\<rparr>"

definition record_b :: VideoMetadata where
  "record_b = (mapped_record [(''desc'', PStr ''clip'')] ''abcdefg'' url_b)
                \<lparr>local_path := Some ''downloads/abcdefg.mp4''\<rparr>"

section \<open>Properties of the extractor\<close>

subsection \<open>Where the result of a match comes from\<close>

text \<open>
  A successful match is always the answer of the continuation, called on a suffix that
  is no longer than the input. The capturing group of the three patterns is a
  non-empty repetition, so \<open>group(1)\<close> is a non-empty string whenever a pattern
  matches.
\<close>

lemma rmatch_result_from_continuation:
  "rmatch r s g k = Some x \<Longrightarrow> \<exists>s' g'. k s' g' = Some x \<and> length s' \<le> length s"
proof (induction r s g k arbitrary: x rule: rmatch.induct)
  case (1 s g k)
  then show ?case by auto
next
  case (2 c s g k)
  then show ?case by (auto split: list.splits if_splits)
next
  case (3 P s g k)
  then show ?case by (auto split: list.splits if_splits)
next
  case (4 a b s g k)
  from "4.prems" have "rmatch a s g (\<lambda>s' g'. rmatch b s' g' k) = Some x" by simp
  with "4.IH" obtain s1 g1 where
    b: "rmatch b s1 g1 k = Some x" and l1: "length s1 \<le> length s" by blast
  with "4.IH" obtain s2 g2 where "k s2 g2 = Some x" "length s2 \<le> length s1" by blast
  with l1 show ?case by (meson le_trans)
next
  case (5 a b s g k)
  then show ?case by (auto split: option.splits)
next
  case (6 a s g k)
  then show ?case by (auto split: option.splits)
next
  case (7 a s g k)
  let ?K = "\<lambda>s' g'. if length s' < length s
       then (case rmatch (Plus a) s' g' k of Some r \<Rightarrow> Some r | None \<Rightarrow> k s' g')
       else k s' g'"
  from "7.prems" have "rmatch a s g ?K = Some x" by simp
  with "7.IH" obtain s1 g1 where
    K: "?K s1 g1 = Some x" and l1: "length s1 \<le> length s" by blast
  show ?case
  proof (cases "length s1 < length s \<and> rmatch (Plus a) s1 g1 k = Some x")
    case True
    with "7.IH" obtain s2 g2 where "k s2 g2 = Some x" "length s2 \<le> length s1"
      by blast
    with l1 show ?thesis by (meson le_trans)
  next
    case False
    with K have "k s1 g1 = Some x" by (auto split: if_splits option.splits)
    with l1 show ?thesis by blast
  qed
next
  case (8 a s g k)
  from "8.prems" have "rmatch a s g (\<lambda>s' g'. k s' (Some (take (length s - length s') s))) = Some x"
    by simp
  with "8.IH" show ?case by blast
qed

lemma group_plus_cls_nonempty:
  assumes "rmatch (Group (Plus (Cls P))) s g k = Some x"
  shows "\<exists>s' v. k s' (Some v) = Some x \<and> v \<noteq> []"
proof -
  let ?k = "\<lambda>s' g'. k s' (Some (take (length s - length s') s))"
  let ?K = "\<lambda>s' g'. if length s' < length s
       then (case rmatch (Plus (Cls P)) s' g' ?k of Some r \<Rightarrow> Some r | None \<Rightarrow> ?k s' g')
       else ?k s' g'"
  from assms have "rmatch (Cls P) s g ?K = Some x" by simp
  then have "\<exists>c xs. s = c # xs \<and> ?K xs g = Some x"
    by (cases s) (simp_all del: rmatch.simps(7) split: if_splits)
  then obtain c xs where s: "s = c # xs" and K: "?K xs g = Some x"
    by blast
  have "\<exists>s1. k s1 (Some (take (length s - length s1) s)) = Some x \<and> length s1 < length s"
  proof (cases "rmatch (Plus (Cls P)) xs g ?k")
    case None
    with K s have "k xs (Some (take (length s - length xs) s)) = Some x"
      by (simp del: rmatch.simps)
    moreover from s have "length xs < length s" by simp
    ultimately show ?thesis by blast
  next
    case (Some r)
    with K s have "rmatch (Plus (Cls P)) xs g ?k = Some x" by (simp del: rmatch.simps)
    from rmatch_result_from_continuation[OF this] obtain s1 where
      k1: "k s1 (Some (take (length s - length s1) s)) = Some x" and "length s1 \<le> length xs"
      by blast
    with s have "length s1 < length s" by simp
    with k1 show ?thesis by blast
  qed
  then obtain s1 where k1: "k s1 (Some (take (length s - length s1) s)) = Some x"
    and l1: "length s1 < length s" by blast
  from l1 have "take (length s - length s1) s \<noteq> []" by (cases s) auto
  with k1 show ?thesis by blast
qed

lemma seqs_group_last:
  assumes "rmatch (seqs (rs @ [Group (Plus (Cls P))])) s g k = Some x"
  shows "\<exists>s' v. k s' (Some v) = Some x \<and> v \<noteq> []"
  using assms
proof (induction rs arbitrary: s g)
  case Nil
  then have "rmatch (Group (Plus (Cls P))) s g (\<lambda>s' g'. rmatch Eps s' g' k) = Some x"
    by (simp add: seqs_def)
  from group_plus_cls_nonempty[OF this] show ?case by simp
next
  case (Cons r rs)
  then have "rmatch r s g (\<lambda>s' g'. rmatch (seqs (rs @ [Group (Plus (Cls P))])) s' g' k) = Some x"
    by (simp add: seqs_def)
  from rmatch_result_from_continuation[OF this] Cons.IH show ?case by blast
qed

lemma re_search_seqs_group:
  "re_search (seqs (rs @ [Group (Plus (Cls P))])) s = Some g \<Longrightarrow> \<exists>v. g = Some v \<and> v \<noteq> []"
proof (induction s)
  case Nil
  then show ?case using seqs_group_last[of rs P "[]" None "\<lambda>s' g. Some g" g] by auto
next
  case (Cons c cs)
  then show ?case
    using seqs_group_last[of rs P "c # cs" None "\<lambda>s' g. Some g" g]
    by (auto split: option.splits)
qed

lemma patterns_capture:
  assumes "p \<in> set video_id_patterns" "re_search p u = Some g"
  shows "\<exists>v. g = Some v \<and> v \<noteq> []"
proof -
  have p1: "pattern1 = seqs ([lits ''http'', Opt (Lit CHR ''s''), lits ''://'', Opt (lits ''www.''),
     lits ''tiktok.com/@'', Plus (Cls (\<lambda>c. is_word c \<or> c = CHR ''.'' \<or> c = CHR ''-'')),
     lits ''/video/''] @ [Group (Plus (Cls is_digit))])"
    by (simp add: pattern1_def)
  have p2: "pattern2 = seqs ([lits ''http'', Opt (Lit CHR ''s''), lits ''://'', Opt (lits ''m.''),
     lits ''tiktok.com/v/''] @ [Group (Plus (Cls is_digit))])"
    by (simp add: pattern2_def)
  have p3: "pattern3 = seqs ([lits ''http'', Opt (Lit CHR ''s''), lits ''://'',
     Alt (lits ''vm'') (lits ''vt''), lits ''.tiktok.com/''] @ [Group (Plus (Cls is_word))])"
    by (simp add: pattern3_def)
  have c1: "re_search pattern1 u = Some g \<Longrightarrow> \<exists>v. g = Some v \<and> v \<noteq> []"
    by (subst (asm) p1) (rule re_search_seqs_group)
  have c2: "re_search pattern2 u = Some g \<Longrightarrow> \<exists>v. g = Some v \<and> v \<noteq> []"
    by (subst (asm) p2) (rule re_search_seqs_group)
  have c3: "re_search pattern3 u = Some g \<Longrightarrow> \<exists>v. g = Some v \<and> v \<noteq> []"
    by (subst (asm) p3) (rule re_search_seqs_group)
  from assms(1) have "p = pattern1 \<or> p = pattern2 \<or> p = pattern3"
    by (simp add: video_id_patterns_def)
  with assms(2) c1 c2 c3 show ?thesis by blast
qed

lemma extract_empty: "extract_video_id [] = None"
  by (simp add: extract_video_id_def video_id_patterns_def pattern1_def pattern2_def pattern3_def seqs_def lits_def)

lemma re_search_eval:
  "re_search pattern1 url_a = Some (Some ''123'')"
  "re_search pattern1 ''http://m.tiktok.com/v/42'' = None"
  "re_search pattern2 ''http://m.tiktok.com/v/42'' = Some (Some ''42'')"
  "re_search pattern1 url_b = None"
  "re_search pattern2 url_b = None"
  "re_search pattern3 url_b = Some (Some ''abcdefg'')"
  "re_search pattern1 ''not a url'' = None"
  "re_search pattern2 ''not a url'' = None"
  "re_search pattern3 ''not a url'' = None"
  by (simp_all add: url_a_def url_b_def pattern1_def pattern2_def pattern3_def seqs_def
      lits_def is_digit_def is_word_def)

text \<open>
  C7 (extractor contract). The three patterns are tried in their fixed order and the
  result is \<open>group(1)\<close> of the first pattern that has a match, whatever the later
  patterns would capture; the result is \<open>None\<close> exactly when no pattern matches.
\<close>

theorem extract_video_id_first_match_wins:
  "(re_search pattern1 u = Some g \<longrightarrow> extract_video_id u = g) \<and>
   (re_search pattern1 u = None \<and> re_search pattern2 u = Some g \<longrightarrow> extract_video_id u = g) \<and>
   (re_search pattern1 u = None \<and> re_search pattern2 u = None \<and> re_search pattern3 u = Some g
      \<longrightarrow> extract_video_id u = g) \<and>
   ((\<forall>p\<in>set video_id_patterns. re_search p u = None) \<longleftrightarrow> extract_video_id u = None)"
proof -
  have none_iff: "(\<forall>p\<in>set video_id_patterns. re_search p u = None) \<longleftrightarrow> extract_video_id u = None"
  proof
    assume "\<forall>p\<in>set video_id_patterns. re_search p u = None"
    then show "extract_video_id u = None"
      by (simp add: extract_video_id_def video_id_patterns_def)
  next
    assume n: "extract_video_id u = None"
    have "re_search p u = None" if p: "p \<in> set video_id_patterns" for p
    proof (rule ccontr)
      assume "re_search p u \<noteq> None"
      then obtain h where h: "re_search p u = Some h" by blast
      have cap: "\<And>q h'. q \<in> set video_id_patterns \<Longrightarrow> re_search q u = Some h' \<Longrightarrow> h' \<noteq> None"
        using patterns_capture by blast
      from n p h cap show False
        by (auto simp: extract_video_id_def video_id_patterns_def split: option.splits)
    qed
    then show "\<forall>p\<in>set video_id_patterns. re_search p u = None" by blast
  qed
  show ?thesis
    using none_iff by (simp add: extract_video_id_def video_id_patterns_def)
qed

theorem extract_video_id_first_match_wins_witness:
  "extract_video_id url_a = Some ''123'' \<and>
   extract_video_id ''http://m.tiktok.com/v/42'' = Some ''42'' \<and>
   extract_video_id url_b = Some ''abcdefg'' \<and>
   extract_video_id ''not a url'' = None"
proof -
  have a: "extract_video_id url_a = Some ''123''"
    using extract_video_id_first_match_wins [of url_a "Some ''123''"] re_search_eval(1)
    by blast
  have b: "extract_video_id ''http://m.tiktok.com/v/42'' = Some ''42''"
    using extract_video_id_first_match_wins [of "''http://m.tiktok.com/v/42''" "Some ''42''"]
      re_search_eval(2,3)
    by blast
  have c: "extract_video_id url_b = Some ''abcdefg''"
    using extract_video_id_first_match_wins [of url_b "Some ''abcdefg''"] re_search_eval(4,5,6)
    by blast
  have "\<forall>p\<in>set video_id_patterns. re_search p ''not a url'' = None"
    by (simp add: video_id_patterns_def re_search_eval(7,8,9) del: re_search.simps)
  then have d: "extract_video_id ''not a url'' = None"
    using extract_video_id_first_match_wins [of "''not a url''" None] by blast
  from a b c d show ?thesis by blast
qed

text \<open>
  First match, not longest match: both the first and the third pattern match the
  string below, the third would capture eight characters, the result is the capture
  of the first.
\<close>

lemma first_match_not_longest:
  "extract_video_id ''https://www.tiktok.com/@a/video/12 https://vm.tiktok.com/abcdefgh'' = Some ''12''"
  "re_search pattern3 ''https://www.tiktok.com/@a/video/12 https://vm.tiktok.com/abcdefgh''
     = Some (Some ''abcdefgh'')"
  by (simp_all add: extract_video_id_def video_id_patterns_def pattern1_def pattern3_def seqs_def
      lits_def is_digit_def is_word_def)

subsection \<open>Round trip with the constructed URL\<close>

lemma plus_cls_all:
  "s \<noteq> [] \<Longrightarrow> \<forall>c\<in>set s. P c \<Longrightarrow> k [] g = Some x \<Longrightarrow> rmatch (Plus (Cls P)) s g k = Some x"
proof (induction s)
  case Nil
  then show ?case by simp
next
  case (Cons c xs)
  show ?case
  proof (cases "xs = []")
    case True
    with Cons.prems show ?thesis by simp
  next
    case False
    with Cons have "rmatch (Plus (Cls P)) xs g k = Some x" by simp
    with Cons.prems show ?thesis by simp
  qed
qed

lemma group_plus_cls_all:
  assumes "s \<noteq> []" "\<forall>c\<in>set s. P c" "k [] (Some s) = Some x"
  shows "rmatch (Group (Plus (Cls P))) s g k = Some x"
proof -
  have "rmatch (Plus (Cls P)) s g (\<lambda>s' g'. k s' (Some (take (length s - length s') s))) = Some x"
    by (rule plus_cls_all) (use assms in simp_all)
  then show ?thesis by simp
qed

lemma tail_match:
  assumes "vid \<noteq> []" "\<forall>c\<in>set vid. is_digit c"
  shows "rmatch (Group (Plus (Cls is_digit))) vid g (\<lambda>s'. Some) = Some (Some vid)"
  by (rule group_plus_cls_all) (use assms in simp_all)


text \<open>
  C10 (round trip). For a non-empty string of decimal digits, the URL built by
  \<open>_construct_video_url\<close> matches the first pattern at position 0 and the extractor
  returns exactly that string.
\<close>

theorem extract_construct_roundtrip:
  assumes "vid \<noteq> []" and "\<forall>c\<in>set vid. is_digit c"
  shows "extract_video_id (construct_video_url vid) = Some vid"
proof -
  note tm = tail_match[OF assms]
  show ?thesis
    unfolding extract_video_id_def construct_video_url_def video_id_patterns_def pattern1_def
      seqs_def lits_def
    by (simp add: is_word_def tm del: rmatch.simps(8))
qed

theorem extract_construct_roundtrip_witness:
  "''7013'' \<noteq> [] \<and> list_all is_digit ''7013'' \<and>
   extract_video_id (construct_video_url ''7013'') = Some ''7013''"
proof -
  have h1: "''7013'' \<noteq> []" by simp
  have h2: "\<forall>c\<in>set ''7013''. is_digit c" by (simp add: is_digit_def)
  from extract_construct_roundtrip [OF h1 h2] h1 h2 show ?thesis by (simp add: list_all_iff)
qed

section \<open>Properties of the metadata fetcher\<close>

lemma missing_key_defaults:
  "map_of kvs k = None \<Longrightarrow> key_or_default kvs k dflt = dflt"
  "map_of kvs k1 = None \<Longrightarrow> nested_or_default kvs k1 k2 dflt = dflt"
  "map_of kvs k1 = Some (PDict d) \<Longrightarrow> map_of d k2 = None \<Longrightarrow>
     nested_or_default kvs k1 k2 dflt = dflt"
  "map_of kvs k1 = Some (PDict d) \<Longrightarrow> map_of d k2 = Some v \<Longrightarrow>
     nested_or_default kvs k1 k2 dflt = v"
  by (simp_all add: key_or_default_def nested_or_default_def)

lemma py_get2_dict:
  "sub_is_dict kvs k1 \<Longrightarrow>
   py_get2 (PDict kvs) k1 k2 dflt = Inr (nested_or_default kvs k1 k2 dflt)"
  by (auto simp: sub_is_dict_def py_get2_def bind_exn_def nested_or_default_def key_or_default_def
      split: option.splits pyval.splits)

lemma py_get_dict: "py_get (PDict kvs) k dflt = Inr (key_or_default kvs k dflt)"
  by (simp add: key_or_default_def)

lemma map_response_dict:
  assumes "sub_is_dict kvs ''author''" "sub_is_dict kvs ''video''"
    "sub_is_dict kvs ''music''" "sub_is_dict kvs ''stats''"
  shows "map_response (PDict kvs) vid u =
     Inr \<lparr>video_id = vid,
          author = nested_or_default kvs ''author'' ''uniqueId'' (PStr ''''),
          desc = key_or_default kvs ''desc'' (PStr ''''),
          create_time = key_or_default kvs ''createTime'' (PInt 0),
          duration = nested_or_default kvs ''video'' ''duration'' (PInt 0),
          height = nested_or_default kvs ''video'' ''height'' (PInt 0),
          width = nested_or_default kvs ''video'' ''width'' (PInt 0),
          cover = nested_or_default kvs ''video'' ''cover'' (PStr ''''),
          download_url = nested_or_default kvs ''video'' ''downloadAddr'' (PStr ''''),
          play_url = nested_or_default kvs ''video'' ''playAddr'' (PStr ''''),
          music_author = nested_or_default kvs ''music'' ''authorName'' (PStr ''''),
          music_title = nested_or_default kvs ''music'' ''title'' (PStr ''''),
          likes = nested_or_default kvs ''stats'' ''diggCount'' (PInt 0),
          shares = nested_or_default kvs ''stats'' ''shareCount'' (PInt 0),
          comments = nested_or_default kvs ''stats'' ''commentCount'' (PInt 0),
          views = nested_or_default kvs ''stats'' ''playCount'' (PInt 0),
          local_path = None,
          url = Some u\<rparr>"
proof -
  have st: "\<And>k dflt. py_get (key_or_default kvs ''stats'' (PDict [])) k dflt =
      Inr (nested_or_default kvs ''stats'' k dflt)"
    using assms(4)
    by (auto simp: sub_is_dict_def nested_or_default_def key_or_default_def
        split: option.splits pyval.splits)
  show ?thesis
    unfolding map_response_def
    by (simp only: py_get2_dict[OF assms(1)] py_get2_dict[OF assms(2)] py_get2_dict[OF assms(3)]
        py_get_dict st bind_exn_def sum.case)
qed

lemma map_response_fields:
  "map_response vd vid u = Inr md \<Longrightarrow> video_id md = vid \<and> url md = Some u \<and> local_path md = None"
  unfolding map_response_def bind_exn_def
  by (auto split: sum.splits)

text \<open>
  C6 (metadata fetch contract). \<open>_get_video_info\<close> raises when the collector holds no
  client, passes on an exception of the client, and raises when the response is falsy.
  For a non-empty dictionary whose nested objects are dictionaries where present, it
  raises nothing and returns the record in which every field is the value found or,
  for a missing key, the empty string or zero.
\<close>

theorem get_video_info_contract:
  "(api s = None \<longrightarrow>
      fst (get_video_info E vid ou s) = Inl (Exception ''TikTok API not initialized'')) \<and>
   (api s = Some a \<and> video_info E a (request_url vid ou) (world s) = (Inl e, w) \<longrightarrow>
      fst (get_video_info E vid ou s) = Inl e) \<and>
   (api s = Some a \<and> video_info E a (request_url vid ou) (world s) = (Inr resp, w) \<and>
    \<not> truthy resp \<longrightarrow>
      fst (get_video_info E vid ou s) =
        Inl (Exception (''Failed to get video data for ID: '' @ vid))) \<and>
   (api s = Some a \<and> video_info E a (request_url vid ou) (world s) = (Inr (PDict kvs), w) \<and>
    kvs \<noteq> [] \<and> sub_is_dict kvs ''author'' \<and> sub_is_dict kvs ''video'' \<and>
    sub_is_dict kvs ''music'' \<and> sub_is_dict kvs ''stats'' \<longrightarrow>
      fst (get_video_info E vid ou s) = Inr (mapped_record kvs vid (request_url vid ou)))"
proof (intro conjI impI)
  assume "api s = None"
  then show "fst (get_video_info E vid ou s) = Inl (Exception ''TikTok API not initialized'')"
    by (simp add: get_video_info_def)
next
  assume "api s = Some a \<and> video_info E a (request_url vid ou) (world s) = (Inl e, w)"
  then show "fst (get_video_info E vid ou s) = Inl e"
    by (simp add: get_video_info_def)
next
  assume "api s = Some a \<and> video_info E a (request_url vid ou) (world s) = (Inr resp, w) \<and>
    \<not> truthy resp"
  then show "fst (get_video_info E vid ou s) =
      Inl (Exception (''Failed to get video data for ID: '' @ vid))"
    by (simp add: get_video_info_def)
next
  assume h: "api s = Some a \<and> video_info E a (request_url vid ou) (world s) = (Inr (PDict kvs), w) \<and>
    kvs \<noteq> [] \<and> sub_is_dict kvs ''author'' \<and> sub_is_dict kvs ''video'' \<and>
    sub_is_dict kvs ''music'' \<and> sub_is_dict kvs ''stats''"
  then have "fst (get_video_info E vid ou s) = map_response (PDict kvs) vid (request_url vid ou)"
    by (simp add: get_video_info_def)
  also from h have "\<dots> = Inr (mapped_record kvs vid (request_url vid ou))"
    unfolding mapped_record_def by (intro map_response_dict) simp_all
  finally show "fst (get_video_info E vid ou s) = Inr (mapped_record kvs vid (request_url vid ou))" .
qed

theorem get_video_info_contract_witness:
  "fst (get_video_info ok_env ''123'' (Some url_a) (new_collector 0)) =
     Inl (Exception ''TikTok API not initialized'') \<and>
   fst (get_video_info (ok_env\<lparr>video_info := \<lambda>a u w. (Inl (Exception ''blocked''), w)\<rparr>)
          ''123'' (Some url_a) live_collector) = Inl (Exception ''blocked'') \<and>
   fst (get_video_info (sample_env True True [url_a] []) ''123'' (Some url_a) live_collector) =
     Inl (Exception ''Failed to get video data for ID: 123'') \<and>
   fst (get_video_info
          (ok_env\<lparr>video_info := \<lambda>a u w.
             (Inr (PDict [(''desc'', PStr ''clip''), (''video'', PDict [(''height'', PInt 1280)]),
                          (''stats'', PDict [])]), w)\<rparr>)
          ''123'' (Some url_a) live_collector) =
     Inr \<lparr>video_id = ''123'', author = PStr '''', desc = PStr ''clip'', create_time = PInt 0,
          duration = PInt 0, height = PInt 1280, width = PInt 0, cover = PStr '''',
          download_url = PStr '''', play_url = PStr '''', music_author = PStr '''',
          music_title = PStr '''', likes = PInt 0, shares = PInt 0, comments = PInt 0,
          views = PInt 0, local_path = None, url = Some url_a\<rparr>"
proof -
  have ru: "request_url ''123'' (Some url_a) = url_a"
    by (simp add: request_url_def url_a_def)
  have a: "fst (get_video_info ok_env ''123'' (Some url_a) (new_collector 0)) =
     Inl (Exception ''TikTok API not initialized'')"
    using get_video_info_contract
      [where s = "new_collector 0" and E = ok_env and vid = "''123''" and ou = "Some url_a"]
    by (simp add: new_collector_def)
  have b: "fst (get_video_info (ok_env\<lparr>video_info := \<lambda>a u w. (Inl (Exception ''blocked''), w)\<rparr>)
          ''123'' (Some url_a) live_collector) = Inl (Exception ''blocked'')"
    using get_video_info_contract
      [where s = live_collector
        and E = "ok_env\<lparr>video_info := \<lambda>a u w. (Inl (Exception ''blocked''), w)\<rparr>"
        and vid = "''123''" and ou = "Some url_a" and a = 1 and e = "Exception ''blocked''"
        and w = 0]
    by (simp add: live_collector_def)
  have c: "fst (get_video_info (sample_env True True [url_a] []) ''123'' (Some url_a) live_collector) =
     Inl (Exception ''Failed to get video data for ID: 123'')"
    using get_video_info_contract
      [where s = live_collector and E = "sample_env True True [url_a] []" and vid = "''123''"
        and ou = "Some url_a" and a = 1 and resp = "PDict []" and w = 1]
    by (simp add: live_collector_def sample_env_def ru)
  have d: "fst (get_video_info
          (ok_env\<lparr>video_info := \<lambda>a u w.
             (Inr (PDict [(''desc'', PStr ''clip''), (''video'', PDict [(''height'', PInt 1280)]),
                          (''stats'', PDict [])]), w)\<rparr>)
          ''123'' (Some url_a) live_collector) =
     Inr \<lparr>video_id = ''123'', author = PStr '''', desc = PStr ''clip'', create_time = PInt 0,
          duration = PInt 0, height = PInt 1280, width = PInt 0, cover = PStr '''',
          download_url = PStr '''', play_url = PStr '''', music_author = PStr '''',
          music_title = PStr '''', likes = PInt 0, shares = PInt 0, comments = PInt 0,
          views = PInt 0, local_path = None, url = Some url_a\<rparr>"
    using get_video_info_contract
      [where s = live_collector
        and E = "ok_env\<lparr>video_info := \<lambda>a u w.
             (Inr (PDict [(''desc'', PStr ''clip''), (''video'', PDict [(''height'', PInt 1280)]),
                          (''stats'', PDict [])]), w)\<rparr>"
        and vid = "''123''" and ou = "Some url_a" and a = 1 and w = 0
        and kvs = "[(''desc'', PStr ''clip''), (''video'', PDict [(''height'', PInt 1280)]),
                    (''stats'', PDict [])]"]
    by (simp add: live_collector_def ru sub_is_dict_def nested_or_default_def
        key_or_default_def mapped_record_def)
  from a b c d show ?thesis by (intro conjI)
qed

text \<open>
  The tolerance is for missing keys only: a nested object that is present and is not a
  dictionary has no \<open>get\<close>, and the lookup raises.
\<close>

lemma malformed_sub_object_raises:
  "map_response (PDict [(''author'', PStr ''someone'')]) ''123'' url_a = Inl (AttributeError ''get'')"
  by (simp add: map_response_def py_get2_def bind_exn_def)

section \<open>Properties of the downloader\<close>

lemma download_video_shape:
  "download_video E md w = (r, md', w') \<Longrightarrow>
   (r = Inr None \<and> md' = md) \<or> (\<exists>out. r = Inr (Some out) \<and> md' = md\<lparr>local_path := Some out\<rparr>)"
  by (auto simp: download_video_def download_video_try_def split: prod.splits sum.splits if_splits)


lemma sample_record_fields:
  "video_id sample_record = ''123''" "url sample_record = Some url_a"
  "local_path sample_record = None"
  by (simp_all add: sample_record_def mapped_record_def)


section \<open>Properties of the collector\<close>

subsection \<open>Session life cycle\<close>

lemma cleanup_never_raises: "fst (cleanup E s) = Inr ()"
  by (simp add: cleanup_def split: prod.splits sum.splits)

lemma cleanup_state:
  "snd (cleanup E s) =
     (case api s of
        None \<Rightarrow> s
      | Some a \<Rightarrow>
          (case close_sessions E a (world s) of
             (Inl e, w) \<Rightarrow> s\<lparr>world := w\<rparr>
           | (Inr u, w) \<Rightarrow> s\<lparr>api := None, initialized := False, world := w\<rparr>))"
  by (simp add: cleanup_def cleanup_try_def split: prod.splits sum.splits option.splits)

lemma cleanup_consistent: "consistent s \<Longrightarrow> consistent (snd (cleanup E s))"
  by (auto simp: cleanup_state consistent_def split: option.splits prod.splits sum.splits if_splits)

lemma initialize_api_try_consistent:
  "consistent s \<Longrightarrow> consistent (snd (initialize_api_try E s))"
  by (auto simp: initialize_api_try_def consistent_def split: prod.splits sum.splits if_splits)

lemma initialize_api_consistent:
  assumes "consistent s"
  shows "consistent (snd (initialize_api E s))"
proof -
  obtain r s1 where t: "initialize_api_try E s = (r, s1)"
    by (cases "initialize_api_try E s") auto
  with initialize_api_try_consistent[OF assms, of E] have c1: "consistent s1" by simp
  show ?thesis
  proof (cases r)
    case (Inr u)
    with t c1 show ?thesis by (simp add: initialize_api_def)
  next
    case (Inl e)
    obtain r2 s2 where c: "cleanup E s1 = (r2, s2)" by (cases "cleanup E s1") auto
    with cleanup_consistent[OF c1, of E] have "consistent s2" by simp
    with Inl t c c1 show ?thesis
      by (auto simp: initialize_api_def split: sum.splits)
  qed
qed

lemma get_video_info_state:
  "get_video_info E vid ou s = (r, s1) \<Longrightarrow> api s1 = api s \<and> initialized s1 = initialized s"
  by (auto simp: get_video_info_def Let_def split: option.splits prod.splits sum.splits if_splits)

lemma get_video_info_fields:
  "get_video_info E vid ou s = (Inr md, s1) \<Longrightarrow>
   video_id md = vid \<and> url md = Some (request_url vid ou) \<and> local_path md = None"
  by (auto simp: get_video_info_def Let_def dest: map_response_fields
      split: option.splits prod.splits sum.splits if_splits)

lemma process_state:
  "process E m acc s = (r, s') \<Longrightarrow> api s' = api s \<and> initialized s' = initialized s"
proof (induction m arbitrary: acc s)
  case Nil
  then show ?case by simp
next
  case (Cons p m)
  obtain u vid where p: "p = (u, vid)" by (cases p) auto
  obtain r1 s1 where g: "get_video_info E vid (Some u) s = (r1, s1)"
    by (cases "get_video_info E vid (Some u) s") auto
  note st1 = get_video_info_state[OF g]
  show ?case
  proof (cases r1)
    case (Inl e)
    with Cons.prems p g st1 show ?thesis by simp
  next
    case (Inr md)
    obtain r2 md' w2 where d: "download_video E md (world s1) = (r2, md', w2)"
      by (cases "download_video E md (world s1)") auto
    show ?thesis
    proof (cases r2)
      case (Inl e)
      with Cons.prems p g Inr d st1 show ?thesis by auto
    next
      case inr2: (Inr dp)
      from Cons.prems p g Inr d inr2
      have "process E m (if dp \<noteq> None \<and> dp \<noteq> Some [] then acc @ [md'] else acc) (s1\<lparr>world := w2\<rparr>) = (r, s')"
        by (auto split: if_splits)
      from Cons.IH[OF this] st1 show ?thesis by simp
    qed
  qed
qed

subsection \<open>The dictionary from URL to ID\<close>

lemma resolve_step_keys:
  "map fst (resolve_step acc u0) = map fst acc \<or>
   (strip u0 \<notin> set (map fst acc) \<and> map fst (resolve_step acc u0) = map fst acc @ [strip u0])"
  by (auto simp: resolve_step_def Let_def update_keys split: option.splits)

lemma update_entries:
  "(u, v) \<in> set (AList.update k x al) \<Longrightarrow> (u, v) \<in> set al \<or> (u = k \<and> v = x)"
  by (induction al) (auto split: if_splits)

lemma resolve_step_entries:
  assumes "(u, v) \<in> set (resolve_step acc u0)"
  shows "(u, v) \<in> set acc \<or> (u = strip u0 \<and> extract_video_id u = Some v \<and> v \<noteq> [])"
proof (cases "extract_video_id (strip u0)")
  case None
  with assms show ?thesis by (simp add: resolve_step_def)
next
  case (Some x)
  show ?thesis
  proof (cases "x = []")
    case True
    with Some assms show ?thesis by (simp add: resolve_step_def)
  next
    case False
    with Some assms have "(u, v) \<in> set (AList.update (strip u0) x acc)"
      by (simp add: resolve_step_def)
    from update_entries[OF this] Some False show ?thesis by auto
  qed
qed

lemma foldl_resolve_keys:
  "\<exists>ys. map fst (foldl resolve_step acc urls) = map fst acc @ ys \<and>
        subseq ys (map strip urls) \<and>
        (distinct (map fst acc) \<longrightarrow> distinct (map fst acc @ ys))"
proof (induction urls arbitrary: acc)
  case Nil
  show ?case by simp
next
  case (Cons x xs)
  from Cons.IH[of "resolve_step acc x"] obtain ys where
    k: "map fst (foldl resolve_step (resolve_step acc x) xs) = map fst (resolve_step acc x) @ ys"
    and s: "subseq ys (map strip xs)"
    and d: "distinct (map fst (resolve_step acc x)) \<longrightarrow> distinct (map fst (resolve_step acc x) @ ys)"
    by blast
  from resolve_step_keys[of acc x] show ?case
  proof
    assume e: "map fst (resolve_step acc x) = map fst acc"
    with k s d show ?thesis
      by (intro exI[of _ ys]) (simp add: list_emb_Cons)
  next
    assume e: "strip x \<notin> set (map fst acc) \<and>
      map fst (resolve_step acc x) = map fst acc @ [strip x]"
    with k s d show ?thesis
      by (intro exI[of _ "strip x # ys"]) auto
  qed
qed

lemma url_to_id_keys:
  "subseq (map fst (url_to_id urls)) (map strip urls)" "distinct (map fst (url_to_id urls))"
  using foldl_resolve_keys[of "[]" urls] by (auto simp: url_to_id_def)

lemma foldl_resolve_entries:
  "(u, v) \<in> set (foldl resolve_step acc urls) \<Longrightarrow>
   (u, v) \<in> set acc \<or> (extract_video_id u = Some v \<and> v \<noteq> [])"
proof (induction urls arbitrary: acc)
  case Nil
  then show ?case by simp
next
  case (Cons x xs)
  from Cons.prems have "(u, v) \<in> set (foldl resolve_step (resolve_step acc x) xs)" by simp
  from Cons.IH[OF this] show ?case using resolve_step_entries[of u v acc x] by blast
qed

lemma url_to_id_entries:
  assumes "(u, v) \<in> set (url_to_id urls)"
  shows "extract_video_id u = Some v" "v \<noteq> []" "u \<noteq> []" "request_url v (Some u) = u"
proof -
  from foldl_resolve_entries[of u v "[]" urls] assms
  show e: "extract_video_id u = Some v" and "v \<noteq> []" by (auto simp: url_to_id_def)
  from e extract_empty show n: "u \<noteq> []" by auto
  then show "request_url v (Some u) = u" by (simp add: request_url_def)
qed

lemma url_to_id_length: "length (url_to_id urls) \<le> length urls"
proof -
  have "length (map fst (url_to_id urls)) \<le> length (map strip urls)"
    using url_to_id_keys(1) by (rule list_emb_length)
  then show ?thesis by simp
qed

subsection \<open>The processing loop\<close>

lemma download_video_kept:
  assumes "download_video E md w = (Inr dp, md', w')" "dp \<noteq> None" "dp \<noteq> Some []"
  shows "url md' = url md" "video_id md' = video_id md" "\<exists>p. local_path md' = Some p \<and> p \<noteq> []"
  using download_video_shape[OF assms(1)] assms(2,3) by auto

lemma process_results:
  "process E m acc s = (Inr rs, s') \<Longrightarrow>
   \<exists>ys. rs = acc @ ys \<and>
        subseq (map (\<lambda>md. (url md, video_id md)) ys)
               (map (\<lambda>(u, v). (Some (request_url v (Some u)), v)) m) \<and>
        (\<forall>md\<in>set ys. \<exists>p. local_path md = Some p \<and> p \<noteq> [])"
proof (induction m arbitrary: acc s)
  case Nil
  then show ?case by simp
next
  case (Cons p m)
  obtain u vid where p: "p = (u, vid)" by (cases p) auto
  obtain r1 s1 where g: "get_video_info E vid (Some u) s = (r1, s1)"
    by (cases "get_video_info E vid (Some u) s") auto
  show ?case
  proof (cases r1)
    case (Inl e)
    with Cons.prems p g show ?thesis by simp
  next
    case (Inr md)
    note f = get_video_info_fields[OF g[unfolded Inr]]
    obtain r2 md' w2 where d: "download_video E md (world s1) = (r2, md', w2)"
      by (cases "download_video E md (world s1)") auto
    show ?thesis
    proof (cases r2)
      case (Inl e)
      with Cons.prems p g Inr d show ?thesis by auto
    next
      case inr2: (Inr dp)
      show ?thesis
      proof (cases "dp \<noteq> None \<and> dp \<noteq> Some []")
        case True
        with Cons.prems p g Inr d inr2
        have "process E m (acc @ [md']) (s1\<lparr>world := w2\<rparr>) = (Inr rs, s')" by auto
        from Cons.IH[OF this] obtain ys where
          ys: "rs = (acc @ [md']) @ ys"
          "subseq (map (\<lambda>md. (url md, video_id md)) ys)
               (map (\<lambda>(u, v). (Some (request_url v (Some u)), v)) m)"
          "\<forall>md\<in>set ys. \<exists>p. local_path md = Some p \<and> p \<noteq> []" by blast
        from download_video_kept[OF d[unfolded inr2]] True f
        have k: "url md' = Some (request_url vid (Some u))" "video_id md' = vid"
          "\<exists>p. local_path md' = Some p \<and> p \<noteq> []" by auto
        from ys k p show ?thesis
          by (intro exI[of _ "md' # ys"]) auto
      next
        case False
        with Cons.prems p g Inr d inr2
        have "process E m acc (s1\<lparr>world := w2\<rparr>) = (Inr rs, s')" by auto
        from Cons.IH[OF this] obtain ys where
          ys: "rs = acc @ ys"
          "subseq (map (\<lambda>md. (url md, video_id md)) ys)
               (map (\<lambda>(u, v). (Some (request_url v (Some u)), v)) m)"
          "\<forall>md\<in>set ys. \<exists>p. local_path md = Some p \<and> p \<noteq> []" by blast
        then show ?thesis
          by (intro exI[of _ ys]) (auto simp: p)
      qed
    qed
  qed
qed

subsection \<open>The batch\<close>

lemma download_videos_unfold:
  "download_videos E urls s =
     (case fst (download_videos_try E urls s) of Inl e \<Rightarrow> Inr [] | Inr rs \<Rightarrow> Inr rs,
      snd (cleanup E (snd (download_videos_try E urls s))))"
proof -
  obtain r s1 where t: "download_videos_try E urls s = (r, s1)"
    by (cases "download_videos_try E urls s") auto
  obtain c s2 where c: "cleanup E s1 = (c, s2)" by (cases "cleanup E s1") auto
  with cleanup_never_raises[of E s1] have "c = Inr ()" by simp
  with t c show ?thesis by (simp add: download_videos_def)
qed

lemma download_videos_results:
  assumes "download_videos E urls s = (r, s')"
  shows "\<exists>rs. r = Inr rs \<and>
     (rs = [] \<or> (\<exists>s1 s2. process E (url_to_id urls) [] s1 = (Inr rs, s2)))"
proof -
  obtain r0 s1 where t: "download_videos_try E urls s = (r0, s1)"
    by (cases "download_videos_try E urls s") auto
  show ?thesis
  proof (cases r0)
    case (Inl e)
    with t assms show ?thesis by (auto simp: download_videos_unfold)
  next
    case (Inr rs)
    with t assms have r: "r = Inr rs" by (auto simp: download_videos_unfold)
    from t Inr have "rs = [] \<or> (\<exists>s0. process E (url_to_id urls) [] s0 = (Inr rs, s1))"
      by (auto simp: download_videos_try_def Let_def split: prod.splits sum.splits if_splits)
    with r show ?thesis by blast
  qed
qed

lemma subseq_distinct: "subseq xs ys \<Longrightarrow> distinct ys \<Longrightarrow> distinct xs"
proof (induction rule: list_emb.induct)
  case (list_emb_Nil ys)
  show ?case by simp
next
  case (list_emb_Cons xs ys y)
  then show ?case by simp
next
  case (list_emb_Cons2 x y xs ys)
  from list_emb_Cons2 have "distinct xs" "y \<notin> set ys" "x = y" by auto
  moreover from list_emb_Cons2.hyps(2) have "set xs \<subseteq> set ys"
    by (auto elim: list_emb_set)
  ultimately show ?case by auto
qed

lemma distinct_map_filter_le1:
  "distinct (map f xs) \<Longrightarrow> length (filter (\<lambda>x. f x = y) xs) \<le> 1"
  by (induction xs) (auto simp: filter_empty_conv image_iff)

lemma batch_results:
  assumes "download_videos E urls s = (Inr rs, s')"
  shows "subseq (map (\<lambda>md. (url md, video_id md)) rs)
           (map (\<lambda>(u, v). (Some u, v)) (url_to_id urls))"
    and "\<forall>md\<in>set rs. \<exists>p. local_path md = Some p \<and> p \<noteq> []"
proof -
  from download_videos_results[OF assms]
  have "rs = [] \<or> (\<exists>s1 s2. process E (url_to_id urls) [] s1 = (Inr rs, s2))" by simp
  then have "subseq (map (\<lambda>md. (url md, video_id md)) rs)
           (map (\<lambda>(u, v). (Some u, v)) (url_to_id urls)) \<and>
     (\<forall>md\<in>set rs. \<exists>p. local_path md = Some p \<and> p \<noteq> [])"
  proof
    assume "rs = []"
    then show ?thesis by simp
  next
    assume "\<exists>s1 s2. process E (url_to_id urls) [] s1 = (Inr rs, s2)"
    then obtain s1 s2 where "process E (url_to_id urls) [] s1 = (Inr rs, s2)" by blast
    from process_results[OF this]
    have a: "subseq (map (\<lambda>md. (url md, video_id md)) rs)
               (map (\<lambda>(u, v). (Some (request_url v (Some u)), v)) (url_to_id urls))"
      and b: "\<forall>md\<in>set rs. \<exists>p. local_path md = Some p \<and> p \<noteq> []" by auto
    have "map (\<lambda>(u, v). (Some (request_url v (Some u)), v)) (url_to_id urls)
        = map (\<lambda>(u, v). (Some u, v)) (url_to_id urls)"
      by (rule map_cong) (auto simp: url_to_id_entries(4))
    with a b show ?thesis by simp
  qed
  then show "subseq (map (\<lambda>md. (url md, video_id md)) rs)
           (map (\<lambda>(u, v). (Some u, v)) (url_to_id urls))"
    and "\<forall>md\<in>set rs. \<exists>p. local_path md = Some p \<and> p \<noteq> []" by blast+
qed

lemma batch_urls:
  assumes "download_videos E urls s = (Inr rs, s')"
  shows "subseq (map url rs) (map Some (map fst (url_to_id urls)))"
proof -
  from subseq_map[OF batch_results(1)[OF assms], of fst]
  show ?thesis by (simp add: comp_def case_prod_beta)
qed

lemma download_videos_try_consistent:
  assumes "consistent s"
  shows "consistent (snd (download_videos_try E urls s))"
proof -
  obtain r1 s1 where i: "initialize_api E s = (r1, s1)" by (cases "initialize_api E s") auto
  with initialize_api_consistent[OF assms, of E] have c1: "consistent s1" by simp
  show ?thesis
  proof (cases r1)
    case (Inl e)
    with i c1 show ?thesis by (simp add: download_videos_try_def)
  next
    case (Inr u)
    show ?thesis
    proof (cases "url_to_id urls = []")
      case True
      with i Inr c1 show ?thesis by (simp add: download_videos_try_def)
    next
      case False
      obtain r2 s2 where p: "process E (url_to_id urls) [] s1 = (r2, s2)"
        by (cases "process E (url_to_id urls) [] s1") auto
      from process_state[OF p] c1 have "consistent s2" by (simp add: consistent_def)
      with i Inr False p show ?thesis by (simp add: download_videos_try_def)
    qed
  qed
qed

lemma download_videos_consistent:
  "consistent s \<Longrightarrow> consistent (snd (download_videos E urls s))"
  by (simp add: download_videos_unfold cleanup_consistent download_videos_try_consistent)

lemma consistent_new_collector: "consistent (new_collector w)"
  by (simp add: consistent_def new_collector_def)

subsection \<open>Runs in the sample environment\<close>

lemma extract_eval:
  "extract_video_id url_a = Some ''123''"
  "extract_video_id url_b = Some ''abcdefg''"
  "extract_video_id ''not a url'' = None"
  by (simp_all add: extract_video_id_def video_id_patterns_def re_search_eval del: re_search.simps)

lemma strip_eval:
  "strip url_a = url_a" "strip url_b = url_b" "strip ''not a url'' = ''not a url''"
  "strip ''  https://www.tiktok.com/@user/video/123 '' = url_a"
  by (simp_all add: strip_def url_a_def url_b_def is_space_def)

lemma url_neq: "url_a \<noteq> url_b" "url_b \<noteq> url_a"
  by (simp_all add: url_a_def url_b_def)

lemma url_to_id_eval:
  "url_to_id [url_a, ''not a url'', url_b] = [(url_a, ''123''), (url_b, ''abcdefg'')]"
  "url_to_id [url_a, url_b] = [(url_a, ''123''), (url_b, ''abcdefg'')]"
  "url_to_id [url_a] = [(url_a, ''123'')]"
  "url_to_id [url_a, url_b, ''  https://www.tiktok.com/@user/video/123 ''] =
     [(url_a, ''123''), (url_b, ''abcdefg'')]"
  "url_to_id [''not a url''] = []"
  by (simp_all add: url_to_id_def resolve_step_def strip_eval extract_eval url_neq)

lemma request_url_eval:
  "request_url v (Some url_a) = url_a" "request_url v (Some url_b) = url_b"
  by (simp_all add: request_url_def url_a_def url_b_def)

lemma map_response_eval:
  "map_response (PDict [(''desc'', PStr ''clip'')]) vid u =
     Inr (mapped_record [(''desc'', PStr ''clip'')] vid u)"
  unfolding mapped_record_def
  by (rule map_response_dict) (simp_all add: sub_is_dict_def)

lemma path_join_eval: "path_join ''/tmp/dl'' ''video.mp4'' = ''/tmp/dl/video.mp4''"
  by (simp add: path_join_def)

lemma record_eval:
  "local_path record_a = Some ''downloads/123.mp4''" "url record_a = Some url_a"
  "video_id record_a = ''123''"
  "local_path record_b = Some ''downloads/abcdefg.mp4''" "url record_b = Some url_b"
  "video_id record_b = ''abcdefg''"
  by (simp_all add: record_a_def record_b_def mapped_record_def)

lemma run_all_ok:
  "fst (download_videos (sample_env True True [] []) [url_a, ''not a url'', url_b] (new_collector 0))
     = Inr [record_a, record_b]"
  by (simp add: download_videos_unfold download_videos_try_def initialize_api_def
      initialize_api_try_def new_collector_def sample_env_def url_to_id_eval get_video_info_def
      request_url_eval map_response_eval download_video_def download_video_try_def
      download_with_ytdlp_def path_join_eval mapped_record_def record_a_def record_b_def url_neq)

lemma run_fetch_failure:
  "fst (download_videos (sample_env True True [url_b] []) [url_a, url_b] (new_collector 0)) = Inr []"
  by (simp add: download_videos_unfold download_videos_try_def initialize_api_def
      initialize_api_try_def new_collector_def sample_env_def url_to_id_eval get_video_info_def
      request_url_eval map_response_eval download_video_def download_video_try_def
      download_with_ytdlp_def path_join_eval mapped_record_def url_neq)

lemma run_download_failure:
  "fst (download_videos (sample_env True True [] [url_a]) [url_a, url_b] (new_collector 0))
     = Inr [record_b]"
  by (simp add: download_videos_unfold download_videos_try_def initialize_api_def
      initialize_api_try_def new_collector_def sample_env_def url_to_id_eval get_video_info_def
      request_url_eval map_response_eval download_video_def download_video_try_def
      download_with_ytdlp_def path_join_eval mapped_record_def record_b_def url_neq)

lemma run_single:
  "fst (download_videos (sample_env True True [url_b] []) [url_a] (new_collector 0)) = Inr [record_a]"
  by (simp add: download_videos_unfold download_videos_try_def initialize_api_def
      initialize_api_try_def new_collector_def sample_env_def url_to_id_eval get_video_info_def
      request_url_eval map_response_eval download_video_def download_video_try_def
      download_with_ytdlp_def path_join_eval mapped_record_def record_a_def url_neq)

lemma run_duplicates:
  "fst (download_videos ok_env [url_a, url_b, ''  https://www.tiktok.com/@user/video/123 '']
          (new_collector 0)) = Inr [record_a, record_b]"
  by (simp add: download_videos_unfold download_videos_try_def initialize_api_def
      initialize_api_try_def new_collector_def ok_env_def sample_env_def url_to_id_eval
      get_video_info_def request_url_eval map_response_eval download_video_def
      download_video_try_def download_with_ytdlp_def path_join_eval mapped_record_def
      record_a_def record_b_def url_neq)

lemma run_init_failure:
  "fst (initialize_api (sample_env False True [] []) (new_collector 0)) = Inl (Exception ''no session'')"
  "fst (download_videos (sample_env False True [] []) [url_a] (new_collector 0)) = Inr []"
  by (simp_all add: download_videos_unfold download_videos_try_def initialize_api_def
      initialize_api_try_def new_collector_def sample_env_def cleanup_def cleanup_try_def)

lemma run_close_failure:
  "api (snd (download_videos (sample_env True False [] []) [url_a] (new_collector 0))) = Some 1"
  "initialized (snd (download_videos (sample_env True False [] []) [url_a] (new_collector 0)))"
  by (simp_all add: download_videos_unfold download_videos_try_def initialize_api_def
      initialize_api_try_def new_collector_def sample_env_def url_to_id_eval get_video_info_def
      request_url_eval map_response_eval download_video_def download_video_try_def
      download_with_ytdlp_def path_join_eval mapped_record_def url_neq cleanup_state)

section \<open>The batch operation\<close>

subsection \<open>Failure of one item\<close>

text \<open>
  C1 (per-item failure isolation), evaluated at the failing input. With a working
  client and tool the URL \<open>url_a\<close> alone yields its record. In the batch
  \<open>[url_a, url_b]\<close>, where the client has no data for \<open>url_b\<close>, the exception of
  \<open>_get_video_info\<close> leaves the loop and the handler of \<open>download_videos\<close> returns
  the empty list: the record of \<open>url_a\<close>, already downloaded, is lost.
\<close>

theorem fetch_failure_discards_batch:
  "fst (download_videos (sample_env True True [url_b] []) [url_a] (new_collector 0))
     = Inr [record_a] \<and>
   fst (download_videos (sample_env True True [url_b] []) [url_a, url_b] (new_collector 0))
     = Inr []"
  using run_single run_fetch_failure by simp

text \<open>
  In general: an exception of \<open>_get_video_info\<close> ends the loop with that exception,
  whatever the list of results holds and whatever pairs remain. A failure of the
  download step is isolated as the claim says: the loop goes on with the next pair.
\<close>

lemma fetch_failure_ends_loop:
  assumes "get_video_info E vid (Some u) s = (Inl e, s1)"
  shows "process E ((u, vid) # rest) results s = (Inl e, s1)"
  using assms by simp

lemma download_failure_isolated:
  assumes "get_video_info E vid (Some u) s = (Inr md, s1)"
    and "download_video E md (world s1) = (Inr None, md', w2)"
  shows "process E ((u, vid) # rest) results s = process E rest results (s1\<lparr>world := w2\<rparr>)"
  using assms by simp

subsection \<open>Failure of the initialization\<close>

text \<open>
  C2 (initialization failure), the claim as stated fails: \<open>_initialize_api\<close> raises,
  \<open>download_videos\<close> returns the empty list.
\<close>

theorem init_failure_not_raised:
  "fst (initialize_api (sample_env False True [] []) (new_collector 0))
     = Inl (Exception ''no session'') \<and>
   fst (download_videos (sample_env False True [] []) [url_a] (new_collector 0)) = Inr []"
  using run_init_failure by simp

text \<open>
  C2, amended. \<open>_initialize_api\<close> re-raises the exception of its \<open>try\<close> block, after
  \<open>cleanup\<close> when a client object exists. \<open>download_videos\<close> catches it, runs
  \<open>cleanup\<close> in its \<open>finally\<close> clause and returns the empty list;
  \<open>download_videos\<close> raises nothing to its caller.
\<close>

theorem init_failure_returns_empty:
  "(\<exists>rs. fst (download_videos E urls s) = Inr rs) \<and>
   (initialize_api_try E s = (Inl e, s1) \<longrightarrow>
      initialize_api E s = (Inl e, if api s1 \<noteq> None then snd (cleanup E s1) else s1)) \<and>
   (initialize_api E s = (Inl e, s2) \<longrightarrow>
      download_videos E urls s = (Inr [], snd (cleanup E s2)))"
proof (intro conjI impI)
  show "\<exists>rs. fst (download_videos E urls s) = Inr rs"
    by (cases "fst (download_videos_try E urls s)") (simp_all add: download_videos_unfold)
next
  assume t: "initialize_api_try E s = (Inl e, s1)"
  obtain c s3 where c: "cleanup E s1 = (c, s3)" by (cases "cleanup E s1") auto
  with cleanup_never_raises[of E s1] have "c = Inr ()" by simp
  with t c show "initialize_api E s = (Inl e, if api s1 \<noteq> None then snd (cleanup E s1) else s1)"
    by (simp add: initialize_api_def)
next
  assume "initialize_api E s = (Inl e, s2)"
  then show "download_videos E urls s = (Inr [], snd (cleanup E s2))"
    by (simp add: download_videos_unfold download_videos_try_def)
qed

theorem init_failure_returns_empty_witness:
  "initialize_api (sample_env False True [] []) (new_collector 0) =
     (Inl (Exception ''no session''), \<lparr>api = None, initialized = False, world = 4\<rparr>) \<and>
   download_videos (sample_env False True [] []) [url_a] (new_collector 0) =
     (Inr [], \<lparr>api = None, initialized = False, world = 4\<rparr>)"
proof -
  let ?E = "sample_env False True [] []"
  have t: "initialize_api_try ?E (new_collector 0) =
      (Inl (Exception ''no session''), \<lparr>api = Some 1, initialized = False, world = 3\<rparr>)"
    by (simp add: initialize_api_try_def new_collector_def sample_env_def)
  have c: "snd (cleanup ?E \<lparr>api = Some 1, initialized = False, world = 3\<rparr>) =
      \<lparr>api = None, initialized = False, world = 4\<rparr>"
    by (simp add: cleanup_state sample_env_def)
  have c2: "snd (cleanup ?E \<lparr>api = None, initialized = False, world = 4\<rparr>) =
      \<lparr>api = None, initialized = False, world = 4\<rparr>"
    by (simp add: cleanup_state)
  have i: "initialize_api ?E (new_collector 0) =
     (Inl (Exception ''no session''), \<lparr>api = None, initialized = False, world = 4\<rparr>)"
    using init_failure_returns_empty
      [where E = ?E and s = "new_collector 0" and e = "Exception ''no session''"
        and ?s1.0 = "\<lparr>api = Some 1, initialized = False, world = 3\<rparr>"] t c
    by simp
  have "download_videos ?E [url_a] (new_collector 0) =
     (Inr [], \<lparr>api = None, initialized = False, world = 4\<rparr>)"
    using init_failure_returns_empty
      [where E = ?E and s = "new_collector 0" and e = "Exception ''no session''"
        and ?s2.0 = "\<lparr>api = None, initialized = False, world = 4\<rparr>" and urls = "[url_a]"] i c2
    by simp
  with i show ?thesis by simp
qed

subsection \<open>The returned records\<close>

text \<open>
  For a record without \<open>local_path\<close>, \<open>_download_video\<close> stores a path exactly when
  the file manager gave that path and \<open>_download_with_ytdlp\<close> returned \<open>True\<close> for
  it; every record that the processing loop appends has gone through that step.
\<close>

lemma download_video_local_path_iff:
  assumes "local_path md = None"
  shows "(local_path (fst (snd (download_video E md w))) = Some p) =
     (\<exists>w1. get_download_path E (video_id md) w = (Inr p, w1) \<and>
           fst (download_with_ytdlp E (url md) p w1) = Inr True)"
proof -
  obtain g w1 where g: "get_download_path E (video_id md) w = (g, w1)"
    by (cases "get_download_path E (video_id md) w") auto
  show ?thesis
  proof (cases g)
    case (Inl e)
    with g assms show ?thesis
      by (simp add: download_video_def download_video_try_def)
  next
    case (Inr out)
    obtain d w2 where d: "download_with_ytdlp E (url md) out w1 = (d, w2)"
      by (cases "download_with_ytdlp E (url md) out w1") auto
    show ?thesis
    proof (cases d)
      case (Inl e)
      with g Inr d assms show ?thesis
        by (auto simp: download_video_def download_video_try_def)
    next
      case inr2: (Inr ok)
      with g Inr d assms show ?thesis
        by (cases ok) (auto simp: download_video_def download_video_try_def)
    qed
  qed
qed

lemma download_video_kept_downloaded:
  assumes d: "download_video E md w = (Inr (Some p), md', w')" and n: "local_path md = None"
  shows "local_path md' = Some p \<and>
         (\<exists>w1. get_download_path E (video_id md') w = (Inr p, w1) \<and>
               fst (download_with_ytdlp E (url md') p w1) = Inr True)"
proof -
  from download_video_shape[OF d] have md': "md' = md\<lparr>local_path := Some p\<rparr>" by auto
  then have lp: "local_path (fst (snd (download_video E md w))) = Some p" using d by simp
  with download_video_local_path_iff[OF n, of E w p]
  have "\<exists>w1. get_download_path E (video_id md) w = (Inr p, w1) \<and>
           fst (download_with_ytdlp E (url md) p w1) = Inr True" by simp
  with md' show ?thesis by simp
qed

lemma process_downloaded:
  assumes "process E m acc s = (Inr rs, s')"
    and "\<forall>md\<in>set acc. \<exists>p w w1. local_path md = Some p \<and>
           get_download_path E (video_id md) w = (Inr p, w1) \<and>
           fst (download_with_ytdlp E (url md) p w1) = Inr True"
  shows "\<forall>md\<in>set rs. \<exists>p w w1. local_path md = Some p \<and>
           get_download_path E (video_id md) w = (Inr p, w1) \<and>
           fst (download_with_ytdlp E (url md) p w1) = Inr True"
  using assms
proof (induction m arbitrary: acc s)
  case Nil
  then show ?case by simp
next
  case (Cons q m)
  obtain u vid where q: "q = (u, vid)" by (cases q) auto
  obtain r1 s1 where g: "get_video_info E vid (Some u) s = (r1, s1)"
    by (cases "get_video_info E vid (Some u) s") auto
  show ?case
  proof (cases r1)
    case (Inl e)
    with Cons.prems(1) q g show ?thesis by simp
  next
    case (Inr md)
    note f = get_video_info_fields[OF g[unfolded Inr]]
    obtain r2 md' w2 where d: "download_video E md (world s1) = (r2, md', w2)"
      by (cases "download_video E md (world s1)") auto
    show ?thesis
    proof (cases r2)
      case (Inl e)
      with Cons.prems(1) q g Inr d show ?thesis by auto
    next
      case inr2: (Inr dp)
      show ?thesis
      proof (cases "dp \<noteq> None \<and> dp \<noteq> Some []")
        case True
        then obtain p where dp: "dp = Some p" by auto
        with Cons.prems(1) q g Inr d inr2 True
        have pr: "process E m (acc @ [md']) (s1\<lparr>world := w2\<rparr>) = (Inr rs, s')" by auto
        from f have "local_path md = None" by simp
        from download_video_kept_downloaded[OF d[unfolded inr2 dp] this]
        have "\<exists>p w w1. local_path md' = Some p \<and>
           get_download_path E (video_id md') w = (Inr p, w1) \<and>
           fst (download_with_ytdlp E (url md') p w1) = Inr True" by blast
        with Cons.prems(2)
        have "\<forall>md\<in>set (acc @ [md']). \<exists>p w w1. local_path md = Some p \<and>
           get_download_path E (video_id md) w = (Inr p, w1) \<and>
           fst (download_with_ytdlp E (url md) p w1) = Inr True" by auto
        from Cons.IH[OF pr this] show ?thesis .
      next
        case False
        with Cons.prems(1) q g Inr d inr2
        have pr: "process E m acc (s1\<lparr>world := w2\<rparr>) = (Inr rs, s')" by auto
        from Cons.IH[OF pr Cons.prems(2)] show ?thesis .
      qed
    qed
  qed
qed

lemma batch_downloaded:
  assumes "download_videos E urls s = (Inr rs, s')"
  shows "\<forall>md\<in>set rs. \<exists>p w w1. local_path md = Some p \<and>
           get_download_path E (video_id md) w = (Inr p, w1) \<and>
           fst (download_with_ytdlp E (url md) p w1) = Inr True"
proof -
  from download_videos_results[OF assms]
  have "rs = [] \<or> (\<exists>s1 s2. process E (url_to_id urls) [] s1 = (Inr rs, s2))" by simp
  then show ?thesis
  proof
    assume "rs = []"
    then show ?thesis by simp
  next
    assume "\<exists>s1 s2. process E (url_to_id urls) [] s1 = (Inr rs, s2)"
    then obtain s1 s2 where "process E (url_to_id urls) [] s1 = (Inr rs, s2)" by blast
    then show ?thesis by (rule process_downloaded) simp
  qed
qed

lemma download_eval:
  "get_download_path ok_env ''123'' 0 = (Inr ''downloads/123.mp4'', 0)"
  "fst (download_with_ytdlp ok_env (Some url_a) ''downloads/123.mp4'' 0) = Inr True"
  "get_download_path (sample_env True True [] [url_a]) ''123'' 0 = (Inr ''downloads/123.mp4'', 0)"
  "fst (download_with_ytdlp (sample_env True True [] [url_a]) (Some url_a) ''downloads/123.mp4'' 0)
     = Inr False"
  by (simp_all add: ok_env_def sample_env_def download_with_ytdlp_def path_join_eval)

text \<open>
  C3 (result-record invariant). \<open>download_videos\<close> returns a list that is no longer
  than the input, and every record in it has a non-empty \<open>local_path\<close>; that path is
  the one the file manager gave for the record's ID, and \<open>_download_with_ytdlp\<close>
  returned \<open>True\<close> for the record's URL and that path. For a record that comes from
  \<open>_get_video_info\<close> (no \<open>local_path\<close> yet), \<open>local_path\<close> after
  \<open>_download_video\<close> is the value that \<open>_download_video\<close> returns, and it is a
  path if and only if the download step succeeded: the file manager gave the path and
  \<open>_download_with_ytdlp\<close> returned \<open>True\<close>.
\<close>

theorem result_record_invariant:
  "(download_videos E urls s = (r, s') \<longrightarrow>
      (\<exists>rs. r = Inr rs \<and> length rs \<le> length urls \<and>
            (\<forall>md\<in>set rs. \<exists>p. local_path md = Some p \<and> p \<noteq> []))) \<and>
   (download_videos E urls s = (Inr rs, s') \<longrightarrow>
      (\<forall>md\<in>set rs. \<exists>p w w1. local_path md = Some p \<and>
          get_download_path E (video_id md) w = (Inr p, w1) \<and>
          fst (download_with_ytdlp E (url md) p w1) = Inr True)) \<and>
   (local_path md = None \<longrightarrow>
      fst (download_video E md w) = Inr (local_path (fst (snd (download_video E md w))))) \<and>
   (local_path md = None \<longrightarrow>
      (local_path (fst (snd (download_video E md w))) = Some p) =
      (\<exists>w1. get_download_path E (video_id md) w = (Inr p, w1) \<and>
            fst (download_with_ytdlp E (url md) p w1) = Inr True))"
proof (intro conjI impI)
  assume dv: "download_videos E urls s = (r, s')"
  from download_videos_results[OF dv] obtain rs where r: "r = Inr rs" by blast
  note b = batch_results[OF dv[unfolded r]]
  from list_emb_length[OF b(1)] have "length rs \<le> length (url_to_id urls)" by simp
  with url_to_id_length[of urls] have "length rs \<le> length urls" by simp
  with r b(2) show "\<exists>rs. r = Inr rs \<and> length rs \<le> length urls \<and>
            (\<forall>md\<in>set rs. \<exists>p. local_path md = Some p \<and> p \<noteq> [])" by blast
next
  assume "download_videos E urls s = (Inr rs, s')"
  then show "\<forall>md\<in>set rs. \<exists>p w w1. local_path md = Some p \<and>
          get_download_path E (video_id md) w = (Inr p, w1) \<and>
          fst (download_with_ytdlp E (url md) p w1) = Inr True"
    by (rule batch_downloaded)
next
  assume n: "local_path md = None"
  obtain r md' w' where d: "download_video E md w = (r, md', w')"
    by (cases "download_video E md w") auto
  from download_video_shape[OF d] n d
  show "fst (download_video E md w) = Inr (local_path (fst (snd (download_video E md w))))"
    by auto
next
  assume "local_path md = None"
  then show "(local_path (fst (snd (download_video E md w))) = Some p) =
      (\<exists>w1. get_download_path E (video_id md) w = (Inr p, w1) \<and>
            fst (download_with_ytdlp E (url md) p w1) = Inr True)"
    by (rule download_video_local_path_iff)
qed

theorem result_record_invariant_witness:
  "fst (download_videos ok_env [url_a, ''not a url'', url_b] (new_collector 0)) =
     Inr [record_a, record_b] \<and>
   length [record_a, record_b] \<le> length [url_a, ''not a url'', url_b] \<and>
   local_path record_a = Some ''downloads/123.mp4'' \<and>
   local_path record_b = Some ''downloads/abcdefg.mp4'' \<and>
   (\<exists>p w w1. local_path record_a = Some p \<and>
       get_download_path ok_env (video_id record_a) w = (Inr p, w1) \<and>
       fst (download_with_ytdlp ok_env (url record_a) p w1) = Inr True) \<and>
   (\<exists>p w w1. local_path record_b = Some p \<and>
       get_download_path ok_env (video_id record_b) w = (Inr p, w1) \<and>
       fst (download_with_ytdlp ok_env (url record_b) p w1) = Inr True) \<and>
   local_path sample_record = None \<and>
   fst (download_video ok_env sample_record 0) =
     Inr (local_path (fst (snd (download_video ok_env sample_record 0)))) \<and>
   fst (download_with_ytdlp ok_env (Some url_a) ''downloads/123.mp4'' 0) = Inr True \<and>
   local_path (fst (snd (download_video ok_env sample_record 0))) = Some ''downloads/123.mp4'' \<and>
   fst (download_with_ytdlp (sample_env True True [] [url_a]) (Some url_a)
          ''downloads/123.mp4'' 0) = Inr False \<and>
   local_path (fst (snd (download_video (sample_env True True [] [url_a]) sample_record 0)))
     \<noteq> Some ''downloads/123.mp4''"
proof -
  let ?urls = "[url_a, ''not a url'', url_b]"
  let ?run = "download_videos ok_env ?urls (new_collector 0)"
  let ?bad = "sample_env True True [] [url_a]"
  have run: "fst ?run = Inr [record_a, record_b]"
    using run_all_ok by (simp add: ok_env_def)
  have c: "?run = (fst ?run, snd ?run)" by simp
  with run have c': "?run = (Inr [record_a, record_b], snd ?run)" by simp
  note t = result_record_invariant
    [where E = ok_env and urls = ?urls and s = "new_collector 0"
      and r = "fst ?run" and s' = "snd ?run" and rs = "[record_a, record_b]"
      and md = sample_record and w = 0 and p = "''downloads/123.mp4''"]
  note t' = result_record_invariant
    [where E = ?bad and md = sample_record and w = 0 and p = "''downloads/123.mp4''"]
  from t have "?run = (fst ?run, snd ?run) \<longrightarrow>
      (\<exists>rs. fst ?run = Inr rs \<and> length rs \<le> length ?urls \<and>
            (\<forall>md\<in>set rs. \<exists>p. local_path md = Some p \<and> p \<noteq> []))"
    by (rule conjunct1)
  from this c have "(\<exists>rs. fst ?run = Inr rs \<and> length rs \<le> length ?urls \<and>
            (\<forall>md\<in>set rs. \<exists>p. local_path md = Some p \<and> p \<noteq> []))"
    by (rule mp)
  then have len: "length [record_a, record_b] \<le> length ?urls"
    using run by auto
  from t have "?run = (Inr [record_a, record_b], snd ?run) \<longrightarrow>
      (\<forall>md\<in>set [record_a, record_b]. \<exists>p w w1. local_path md = Some p \<and>
          get_download_path ok_env (video_id md) w = (Inr p, w1) \<and>
          fst (download_with_ytdlp ok_env (url md) p w1) = Inr True)"
    by (rule conjunct2[THEN conjunct1])
  from this c' have "\<forall>md\<in>set [record_a, record_b]. \<exists>p w w1. local_path md = Some p \<and>
          get_download_path ok_env (video_id md) w = (Inr p, w1) \<and>
          fst (download_with_ytdlp ok_env (url md) p w1) = Inr True"
    by (rule mp)
  then have dla: "\<exists>p w w1. local_path record_a = Some p \<and>
       get_download_path ok_env (video_id record_a) w = (Inr p, w1) \<and>
       fst (download_with_ytdlp ok_env (url record_a) p w1) = Inr True"
    and dlb: "\<exists>p w w1. local_path record_b = Some p \<and>
       get_download_path ok_env (video_id record_b) w = (Inr p, w1) \<and>
       fst (download_with_ytdlp ok_env (url record_b) p w1) = Inr True"
    by simp_all
  from t have dl: "local_path sample_record = None \<longrightarrow>
     fst (download_video ok_env sample_record 0) =
     Inr (local_path (fst (snd (download_video ok_env sample_record 0))))"
    by (rule conjunct2[THEN conjunct2, THEN conjunct1])
  from t have "local_path sample_record = None \<longrightarrow>
      (local_path (fst (snd (download_video ok_env sample_record 0))) = Some ''downloads/123.mp4'') =
      (\<exists>w1. get_download_path ok_env (video_id sample_record) 0 = (Inr ''downloads/123.mp4'', w1) \<and>
            fst (download_with_ytdlp ok_env (url sample_record) ''downloads/123.mp4'' w1) = Inr True)"
    by (rule conjunct2[THEN conjunct2, THEN conjunct2])
  then have good: "local_path (fst (snd (download_video ok_env sample_record 0))) =
      Some ''downloads/123.mp4''"
    by (simp add: sample_record_fields download_eval)
  from t' have "local_path sample_record = None \<longrightarrow>
      (local_path (fst (snd (download_video ?bad sample_record 0))) = Some ''downloads/123.mp4'') =
      (\<exists>w1. get_download_path ?bad (video_id sample_record) 0 = (Inr ''downloads/123.mp4'', w1) \<and>
            fst (download_with_ytdlp ?bad (url sample_record) ''downloads/123.mp4'' w1) = Inr True)"
    by (rule conjunct2[THEN conjunct2, THEN conjunct2])
  then have bad: "local_path (fst (snd (download_video ?bad sample_record 0))) \<noteq>
      Some ''downloads/123.mp4''"
    by (simp add: sample_record_fields download_eval)
  have rest: "local_path record_a = Some ''downloads/123.mp4''"
    "local_path record_b = Some ''downloads/abcdefg.mp4''"
    "local_path sample_record = None"
    "fst (download_with_ytdlp ok_env (Some url_a) ''downloads/123.mp4'' 0) = Inr True"
    "fst (download_with_ytdlp ?bad (Some url_a) ''downloads/123.mp4'' 0) = Inr False"
    by (simp_all add: record_eval sample_record_fields download_eval)
  from dl rest(3) have dl': "fst (download_video ok_env sample_record 0) =
     Inr (local_path (fst (snd (download_video ok_env sample_record 0))))"
    by (rule mp)
  from run len rest(1,2) dla dlb rest(3) dl' rest(4) good rest(5) bad
  show ?thesis by (intro conjI)
qed

subsection \<open>Cleanup\<close>

text \<open>
  C4 (cleanup guarantee), the claim as stated fails: when \<open>close_sessions\<close> raises,
  \<open>cleanup\<close> logs the exception and leaves \<open>api\<close> and \<open>initialized\<close> as they
  were, so the collector still holds the client after \<open>download_videos\<close> has returned.
\<close>

theorem close_failure_keeps_client:
  "api (snd (download_videos (sample_env True False [] []) [url_a] (new_collector 0))) = Some 1 \<and>
   initialized (snd (download_videos (sample_env True False [] []) [url_a] (new_collector 0)))"
  using run_close_failure by simp

lemma initialize_api_fresh:
  assumes "\<not> initialized t" "mkdir E (world t) = (Inr (), w1)" "new_api E w1 = (Inr a', w2)"
    "create_sessions E a' w2 = (Inr (), w3)"
  shows "initialize_api E t = (Inr (), t\<lparr>api := Some a', initialized := True, world := w3\<rparr>)"
  using assms by (simp add: initialize_api_def initialize_api_try_def)

lemma close_ok_api_none:
  assumes "\<forall>a w. fst (close_sessions E a w) = Inr ()"
  shows "api (snd (cleanup E t)) = None"
proof (cases "api t")
  case None
  then show ?thesis by (simp add: cleanup_state)
next
  case (Some a)
  obtain r w where cs: "close_sessions E a (world t) = (r, w)"
    by (cases "close_sessions E a (world t)") auto
  from assms have "fst (close_sessions E a (world t)) = Inr ()" by blast
  with cs have "r = Inr ()" by simp
  with Some cs show ?thesis by (simp add: cleanup_state)
qed

lemma run_try_close_failure:
  "api (snd (download_videos_try (sample_env True False [] []) [url_a] (new_collector 0))) = Some 1"
  "initialized (snd (download_videos_try (sample_env True False [] []) [url_a] (new_collector 0)))"
  "world (snd (download_videos_try (sample_env True False [] []) [url_a] (new_collector 0))) = 8"
  by (simp_all add: download_videos_try_def initialize_api_def
      initialize_api_try_def new_collector_def sample_env_def url_to_id_eval get_video_info_def
      request_url_eval map_response_eval download_video_def download_video_try_def
      download_with_ytdlp_def path_join_eval mapped_record_def url_neq)

text \<open>
  C4, amended. On every exit path \<open>download_videos\<close> ends with \<open>cleanup\<close>: the
  state it leaves is the state \<open>cleanup\<close> leaves, and \<open>cleanup\<close> never raises.
  \<open>cleanup\<close> changes nothing when no client is held; when \<open>close_sessions\<close>
  returns it sets \<open>api\<close> to \<open>None\<close> and \<open>initialized\<close> to \<open>False\<close>; when
  \<open>close_sessions\<close> raises it leaves \<open>api\<close> and \<open>initialized\<close> as they were,
  and then the collector still holds the client after \<open>download_videos\<close>. So, when
  \<open>close_sessions\<close> does not raise, \<open>api\<close> is \<open>None\<close> after
  \<open>download_videos\<close>, and for a collector in a consistent state (\<open>initialized\<close>
  only together with a client: true of a new collector, kept by \<open>download_videos\<close>)
  \<open>initialized\<close> is \<open>False\<close> as well. A collector that is not initialized goes
  through the whole of \<open>_initialize_api\<close> again, which installs a new client when
  its steps succeed: the next call starts from scratch.
\<close>

theorem cleanup_when_close_succeeds:
  "snd (download_videos E urls s) = snd (cleanup E (snd (download_videos_try E urls s))) \<and>
   fst (cleanup E t) = Inr () \<and>
   (api t = None \<longrightarrow> snd (cleanup E t) = t) \<and>
   (api t = Some a \<and> close_sessions E a (world t) = (Inr (), w) \<longrightarrow>
      snd (cleanup E t) = t\<lparr>api := None, initialized := False, world := w\<rparr>) \<and>
   (api t = Some a \<and> close_sessions E a (world t) = (Inl e, w) \<longrightarrow>
      snd (cleanup E t) = t\<lparr>world := w\<rparr>) \<and>
   (api (snd (download_videos_try E urls s)) = Some a \<and>
    close_sessions E a (world (snd (download_videos_try E urls s))) = (Inl e, w) \<longrightarrow>
      api (snd (download_videos E urls s)) = Some a \<and>
      initialized (snd (download_videos E urls s)) =
        initialized (snd (download_videos_try E urls s))) \<and>
   ((\<forall>a w. fst (close_sessions E a w) = Inr ()) \<longrightarrow>
      api (snd (download_videos E urls s)) = None) \<and>
   ((\<forall>a w. fst (close_sessions E a w) = Inr ()) \<and> consistent s \<longrightarrow>
      api (snd (download_videos E urls s)) = None \<and>
      \<not> initialized (snd (download_videos E urls s))) \<and>
   consistent (new_collector w0) \<and>
   (consistent s \<longrightarrow> consistent (snd (download_videos E urls s))) \<and>
   (\<not> initialized t \<and> mkdir E (world t) = (Inr (), w1) \<and> new_api E w1 = (Inr a', w2) \<and>
    create_sessions E a' w2 = (Inr (), w3) \<longrightarrow>
      initialize_api E t = (Inr (), t\<lparr>api := Some a', initialized := True, world := w3\<rparr>))"
proof (intro conjI impI)
  let ?s1 = "snd (download_videos_try E urls s)"
  show f: "snd (download_videos E urls s) = snd (cleanup E ?s1)"
    by (simp add: download_videos_unfold)
  show "fst (cleanup E t) = Inr ()" by (rule cleanup_never_raises)
  show "snd (cleanup E t) = t" if "api t = None"
    using that by (simp add: cleanup_state)
  show "snd (cleanup E t) = t\<lparr>api := None, initialized := False, world := w\<rparr>"
    if "api t = Some a \<and> close_sessions E a (world t) = (Inr (), w)"
    using that by (simp add: cleanup_state)
  show "snd (cleanup E t) = t\<lparr>world := w\<rparr>"
    if "api t = Some a \<and> close_sessions E a (world t) = (Inl e, w)"
    using that by (simp add: cleanup_state)
  show "api (snd (download_videos E urls s)) = Some a"
    if "api ?s1 = Some a \<and> close_sessions E a (world ?s1) = (Inl e, w)"
    using that by (simp add: f cleanup_state)
  show "initialized (snd (download_videos E urls s)) = initialized ?s1"
    if "api ?s1 = Some a \<and> close_sessions E a (world ?s1) = (Inl e, w)"
    using that by (simp add: f cleanup_state)
  show "api (snd (download_videos E urls s)) = None"
    if "\<forall>a w. fst (close_sessions E a w) = Inr ()"
    using close_ok_api_none[OF that] by (simp add: f)
  show "api (snd (download_videos E urls s)) = None"
    if "(\<forall>a w. fst (close_sessions E a w) = Inr ()) \<and> consistent s"
    using that close_ok_api_none[of E ?s1] by (simp add: f)
  show "\<not> initialized (snd (download_videos E urls s))"
    if h: "(\<forall>a w. fst (close_sessions E a w) = Inr ()) \<and> consistent s"
  proof -
    from h have "consistent (snd (download_videos E urls s))"
      by (simp add: download_videos_consistent)
    moreover from h have "api (snd (download_videos E urls s)) = None"
      using close_ok_api_none[of E ?s1] by (simp add: f)
    ultimately show ?thesis by (auto simp: consistent_def split: if_splits)
  qed
  show "consistent (new_collector w0)" by (rule consistent_new_collector)
  show "consistent (snd (download_videos E urls s))" if "consistent s"
    using that by (rule download_videos_consistent)
  show "initialize_api E t = (Inr (), t\<lparr>api := Some a', initialized := True, world := w3\<rparr>)"
    if "\<not> initialized t \<and> mkdir E (world t) = (Inr (), w1) \<and> new_api E w1 = (Inr a', w2) \<and>
        create_sessions E a' w2 = (Inr (), w3)"
    using that by (simp add: initialize_api_def initialize_api_try_def)
qed

theorem cleanup_when_close_succeeds_witness:
  "consistent (new_collector (0::nat)) \<and>
   api (snd (download_videos ok_env [url_a, ''not a url'', url_b] (new_collector 0))) = None \<and>
   \<not> initialized (snd (download_videos ok_env [url_a, ''not a url'', url_b] (new_collector 0))) \<and>
   consistent (snd (download_videos ok_env [url_a, ''not a url'', url_b] (new_collector 0))) \<and>
   api (snd (download_videos (sample_env True False [] []) [url_a] (new_collector 0))) = Some 1 \<and>
   initialized (snd (download_videos (sample_env True False [] []) [url_a] (new_collector 0))) \<and>
   snd (cleanup ok_env (new_collector 0)) = new_collector 0 \<and>
   snd (cleanup ok_env live_collector) = \<lparr>api = None, initialized = False, world = 1\<rparr> \<and>
   snd (cleanup (sample_env True False [] []) live_collector) =
     \<lparr>api = Some 1, initialized = True, world = 1\<rparr> \<and>
   initialize_api ok_env (new_collector 0) =
     (Inr (), \<lparr>api = Some 1, initialized = True, world = 3\<rparr>)"
proof -
  let ?urls = "[url_a, ''not a url'', url_b]"
  let ?bad = "sample_env True False [] []"
  have h: "\<forall>a w. fst (close_sessions ok_env a w) = Inr ()"
    by (simp add: ok_env_def sample_env_def)
  have c0: "consistent (new_collector (0::nat))"
    by (rule cleanup_when_close_succeeds [THEN conjunct2, THEN conjunct2, THEN conjunct2, THEN conjunct2, THEN conjunct2, THEN conjunct2, THEN conjunct2, THEN conjunct2, THEN conjunct1])
  note c8 = cleanup_when_close_succeeds
    [where E = ok_env and urls = ?urls and s = "new_collector 0", THEN conjunct2, THEN conjunct2, THEN conjunct2, THEN conjunct2, THEN conjunct2, THEN conjunct2, THEN conjunct2, THEN conjunct1]
  from c8 h c0
  have a: "api (snd (download_videos ok_env ?urls (new_collector 0))) = None"
    and b: "\<not> initialized (snd (download_videos ok_env ?urls (new_collector 0)))"
    by simp_all
  note c10 = cleanup_when_close_succeeds
    [where E = ok_env and urls = ?urls and s = "new_collector 0", THEN conjunct2, THEN conjunct2, THEN conjunct2, THEN conjunct2, THEN conjunct2, THEN conjunct2, THEN conjunct2, THEN conjunct2, THEN conjunct2, THEN conjunct1]
  from c10 c0 have c: "consistent (snd (download_videos ok_env ?urls (new_collector 0)))"
    by (rule mp)
  have cs: "close_sessions ?bad 1 8 = (Inl (Exception ''close failed''), 9)"
    by (simp add: sample_env_def)
  note c6 = cleanup_when_close_succeeds
    [where E = ?bad and urls = "[url_a]" and s = "new_collector 0" and a = 1
      and e = "Exception ''close failed''" and w = 9, THEN conjunct2, THEN conjunct2, THEN conjunct2, THEN conjunct2, THEN conjunct2, THEN conjunct1]
  from c6 run_try_close_failure cs
  have d: "api (snd (download_videos ?bad [url_a] (new_collector 0))) = Some 1"
    and e: "initialized (snd (download_videos ?bad [url_a] (new_collector 0)))"
    by simp_all
  note c3 = cleanup_when_close_succeeds [where E = ok_env and t = "new_collector 0", THEN conjunct2, THEN conjunct2, THEN conjunct1]
  from c3 have f: "snd (cleanup ok_env (new_collector 0)) = new_collector 0"
    by (simp add: new_collector_def)
  note c4 = cleanup_when_close_succeeds
    [where E = ok_env and t = live_collector and a = 1 and w = 1, THEN conjunct2, THEN conjunct2, THEN conjunct2, THEN conjunct1]
  from c4 have g: "snd (cleanup ok_env live_collector) = \<lparr>api = None, initialized = False, world = 1\<rparr>"
    by (simp add: live_collector_def ok_env_def sample_env_def)
  note c5 = cleanup_when_close_succeeds
    [where E = ?bad and t = live_collector and a = 1 and w = 1
      and e = "Exception ''close failed''", THEN conjunct2, THEN conjunct2, THEN conjunct2, THEN conjunct2, THEN conjunct1]
  from c5 have i: "snd (cleanup ?bad live_collector) = \<lparr>api = Some 1, initialized = True, world = 1\<rparr>"
    by (simp add: live_collector_def sample_env_def)
  note c11 = cleanup_when_close_succeeds
    [where E = ok_env and t = "new_collector 0" and ?w1.0 = 1 and a' = 1 and ?w2.0 = 2
      and ?w3.0 = 3, THEN conjunct2, THEN conjunct2, THEN conjunct2, THEN conjunct2, THEN conjunct2, THEN conjunct2, THEN conjunct2, THEN conjunct2, THEN conjunct2, THEN conjunct2]
  from c11 have j: "initialize_api ok_env (new_collector 0) =
     (Inr (), \<lparr>api = Some 1, initialized = True, world = 3\<rparr>)"
    by (simp add: new_collector_def ok_env_def sample_env_def)
  from c0 a b c d e f g i j show ?thesis by (intro conjI)
qed

subsection \<open>Order of the result\<close>

text \<open>
  C8 (order preservation). The URLs of the returned records form a subsequence of the
  keys of the dictionary, which follow the first occurrences of the trimmed input
  URLs, and so a subsequence of the trimmed input; each returned record carries the
  ID that the extractor finds in its URL.
\<close>

theorem order_preserved:
  assumes "download_videos E urls s = (Inr rs, s')"
  shows "subseq (map url rs) (map Some (map fst (url_to_id urls))) \<and>
         subseq (map url rs) (map (\<lambda>u. Some (strip u)) urls) \<and>
         (\<forall>md\<in>set rs. \<exists>u. url md = Some u \<and> extract_video_id u = Some (video_id md))"
proof -
  note a = batch_urls[OF assms]
  have "subseq (map Some (map fst (url_to_id urls))) (map Some (map strip urls))"
    using url_to_id_keys(1) by (rule subseq_map)
  with a have b: "subseq (map url rs) (map Some (map strip urls))"
    by (rule subseq_order.order_trans)
  have c: "\<exists>u. url md = Some u \<and> extract_video_id u = Some (video_id md)"
    if md: "md \<in> set rs" for md
  proof -
    from md have "(url md, video_id md) \<in> set (map (\<lambda>md. (url md, video_id md)) rs)" by auto
    with batch_results(1)[OF assms]
    have "(url md, video_id md) \<in> set (map (\<lambda>(u, v). (Some u, v)) (url_to_id urls))"
      by (auto elim!: list_emb_set)
    then obtain u v where "(u, v) \<in> set (url_to_id urls)" "url md = Some u" "video_id md = v"
      by auto
    with url_to_id_entries(1) show ?thesis by auto
  qed
  from a b c show ?thesis by (simp add: comp_def)
qed

theorem order_preserved_witness:
  "fst (download_videos ok_env [url_a, ''not a url'', url_b] (new_collector 0)) =
     Inr [record_a, record_b] \<and>
   subseq [Some url_a, Some url_b] [Some url_a, Some ''not a url'', Some url_b] \<and>
   extract_video_id url_a = Some (video_id record_a) \<and>
   extract_video_id url_b = Some (video_id record_b)"
proof -
  let ?run = "download_videos ok_env [url_a, ''not a url'', url_b] (new_collector 0)"
  have run: "fst ?run = Inr [record_a, record_b]"
    using run_all_ok by (simp add: ok_env_def)
  have "?run = (fst ?run, snd ?run)" by simp
  with run have "?run = (Inr [record_a, record_b], snd ?run)" by simp
  from order_preserved[OF this]
  have "subseq [Some url_a, Some url_b] [Some url_a, Some ''not a url'', Some url_b]"
    and "extract_video_id url_a = Some (video_id record_a)"
    and "extract_video_id url_b = Some (video_id record_b)"
    by (simp_all add: record_eval strip_eval)
  with run show ?thesis by simp
qed

subsection \<open>Duplicates in the input\<close>

text \<open>
  C9 (deduplication within a batch). The keys of the dictionary are distinct, so a
  trimmed URL is resolved and handed to the processing loop once; the URLs of the
  returned records are distinct, so a trimmed URL contributes at most one record.
\<close>

theorem within_batch_deduplication:
  "distinct (map fst (url_to_id urls)) \<and>
   (download_videos E urls s = (Inr rs, s') \<longrightarrow>
      distinct (map url rs) \<and> length (filter (\<lambda>md. url md = Some (strip u)) rs) \<le> 1)"
proof (intro conjI impI)
  show d: "distinct (map fst (url_to_id urls))" by (rule url_to_id_keys(2))
  assume dv: "download_videos E urls s = (Inr rs, s')"
  have "distinct (map Some ys) = distinct ys" for ys :: "string list"
    by (simp add: distinct_map)
  with d have "distinct (map Some (map fst (url_to_id urls)))"
    by blast
  with batch_urls[OF dv] show dr: "distinct (map url rs)" by (rule subseq_distinct)
  then show "length (filter (\<lambda>md. url md = Some (strip u)) rs) \<le> 1"
    by (rule distinct_map_filter_le1)
qed

theorem within_batch_deduplication_witness:
  "url_to_id [url_a, url_b, ''  https://www.tiktok.com/@user/video/123 ''] =
     [(url_a, ''123''), (url_b, ''abcdefg'')] \<and>
   fst (download_videos ok_env [url_a, url_b, ''  https://www.tiktok.com/@user/video/123 '']
          (new_collector 0)) = Inr [record_a, record_b] \<and>
   distinct (map url [record_a, record_b]) \<and>
   length (filter (\<lambda>md. url md = Some (strip ''  https://www.tiktok.com/@user/video/123 ''))
             [record_a, record_b]) \<le> 1"
proof -
  let ?urls = "[url_a, url_b, ''  https://www.tiktok.com/@user/video/123 '']"
  let ?run = "download_videos ok_env ?urls (new_collector 0)"
  have "?run = (fst ?run, snd ?run)" by simp
  with run_duplicates have r: "?run = (Inr [record_a, record_b], snd ?run)" by simp
  note t = within_batch_deduplication
    [where E = ok_env and urls = ?urls and s = "new_collector 0"
      and rs = "[record_a, record_b]" and s' = "snd ?run"
      and u = "''  https://www.tiktok.com/@user/video/123 ''"]
  from t have "?run = (Inr [record_a, record_b], snd ?run) \<longrightarrow>
    distinct (map url [record_a, record_b]) \<and>
    length (filter (\<lambda>md. url md = Some (strip ''  https://www.tiktok.com/@user/video/123 ''))
             [record_a, record_b]) \<le> 1"
    by (rule conjunct2)
  from this r have "distinct (map url [record_a, record_b]) \<and>
    length (filter (\<lambda>md. url md = Some (strip ''  https://www.tiktok.com/@user/video/123 ''))
             [record_a, record_b]) \<le> 1"
    by (rule mp)
  with run_duplicates url_to_id_eval(4) show ?thesis by simp
qed

end
